theory Spec2Isabelle
  imports Main
begin

section \<open>Python exceptions and outcomes\<close>

text \<open>
  The exceptions that the modelled code can raise or receive from its collaborators.
  \<open>URLError\<close> stands for any transport failure of \<open>urlopen\<close>; \<open>SystemExit\<close> is what
  \<open>sys.exit\<close> raises.
\<close>

datatype py_error =
  TypeError | KeyError | IndexError | ValueError | AttributeError | URLError | SystemExit

text \<open>
  A method of the application either returns normally or leaves by an exception. The
  object it mutated is returned in both cases: the pair \<open>(outcome, state)\<close> is the state of
  the object at the moment the call is left.
\<close>

datatype outcome = Returned | Raised py_error

section \<open>The parsed document\<close>

text \<open>
  A node of the tree that BeautifulSoup hands back. A tag has a name, the list of its
  \<open>class\<close> tokens (\<open>a.get('class', [])\<close>), its text and its children; a text node has the
  name \<open>None\<close>. One \<open>char\<close> of the text stands for one character of the Python string,
  so that \<open>length\<close> is \<open>len\<close>.
\<close>

datatype element =
  Element (name: "string option") (get_class: "string list") (text_of: string)
    (children: "element list")

section \<open>Colours\<close>

definition colors :: "(char \<times> string) list" where
  "colors =
    [(CHR ''0'', ''black''), (CHR ''1'', ''red''), (CHR ''2'', ''green''),
     (CHR ''3'', ''yellow''), (CHR ''4'', ''blue''), (CHR ''5'', ''magenta''),
     (CHR ''6'', ''cyan''), (CHR ''7'', ''white'')]"

definition background_classes :: "string list" where
  "background_classes = [''b0'', ''b1'', ''b2'', ''b3'', ''b4'', ''b5'', ''b6'', ''b7'']"

definition foreground_classes :: "string list" where
  "foreground_classes = [''f0'', ''f1'', ''f2'', ''f3'', ''f4'', ''f5'', ''f6'', ''f7'']"

text \<open>
  The loop of \<open>classes_to_color_formatter\<close> over the class names, threading the pair
  \<open>(fgc, bgc)\<close>.
\<close>

fun scan_classes :: "string list \<Rightarrow> char \<times> char \<Rightarrow> char \<times> char" where
  "scan_classes [] (fgc, bgc) = (fgc, bgc)"
| "scan_classes (cls # classes) (fgc, bgc) =
     (if cls \<in> set background_classes then scan_classes classes (fgc, cls ! 1)
      else if cls \<in> set foreground_classes then scan_classes classes (cls ! 1, bgc)
      else scan_classes classes (fgc, bgc))"

text \<open>
  The colour names \<open>(colors[fgc], colors[bgc])\<close> that the formatter name is built from;
  a missing key is Python's \<open>KeyError\<close>.
\<close>

definition resolve_colors :: "string list \<Rightarrow> py_error + (string \<times> string)" where
  "resolve_colors classes =
     (case scan_classes classes (CHR ''7'', CHR ''0'') of (fgc, bgc) \<Rightarrow>
        (case (map_of colors fgc, map_of colors bgc) of
           (Some fg, Some bg) \<Rightarrow> Inr (fg, bg)
         | _ \<Rightarrow> Inl KeyError))"

text \<open>
  \<open>classes_to_color_formatter\<close> returns the terminal's formatter of the name
  \<open>f'{colors[fgc]}_on_{colors[bgc]}'\<close>; the model returns that name.
\<close>

definition classes_to_color_formatter :: "string list \<Rightarrow> py_error + string" where
  "classes_to_color_formatter classes =
     (case resolve_colors classes of
        Inl e \<Rightarrow> Inl e
      | Inr (fg, bg) \<Rightarrow> Inr (fg @ ''_on_'' @ bg))"

section \<open>Line wrapping\<close>

text \<open>
  \<open>reduce(operator.add, map(lambda a: len(a.text), current_line), 0)\<close>
\<close>

definition line_length :: "element list \<Rightarrow> nat" where
  "line_length current_line = foldl (+) 0 (map (\<lambda>a. length (text_of a)) current_line)"

text \<open>
  The loop of \<open>display_page\<close> over \<open>txt.children\<close>, threading \<open>lines\<close> and
  \<open>current_line\<close>. The width is a number of columns.
\<close>

fun wrap_loop ::
  "nat \<Rightarrow> element list \<Rightarrow> element list list \<Rightarrow> element list
    \<Rightarrow> element list list \<times> element list" where
  "wrap_loop width [] lines current_line = (lines, current_line)"
| "wrap_loop width (element # rest) lines current_line =
     (if name element = Some ''b'' then
        (if line_length current_line + length (text_of element) > width
         then wrap_loop width rest (lines @ [current_line]) [element]
         else wrap_loop width rest lines (current_line @ [element]))
      else wrap_loop width rest lines current_line)"

definition wrap_lines :: "nat \<Rightarrow> element list \<Rightarrow> element list list" where
  "wrap_lines width txt_children =
     (case wrap_loop width txt_children [] [] of
        (lines, current_line) \<Rightarrow> lines @ [current_line])"

section \<open>Rendering a page\<close>

text \<open>
  \<open>tag.foo\<close> is BeautifulSoup's \<open>tag.find('foo')\<close>: the first descendant tag of that name
  in document order, or \<open>None\<close>. \<open>find_tag\<close> searches a list of siblings and their
  descendants.
\<close>

fun find_tag :: "string \<Rightarrow> element list \<Rightarrow> element option" where
  "find_tag nm [] = None"
| "find_tag nm (Element n cl t ch # es) =
     (if n = Some nm then Some (Element n cl t ch)
      else (case find_tag nm ch of Some r \<Rightarrow> Some r | None \<Rightarrow> find_tag nm es))"

text \<open>
  One printed body line: every run as the pair of its formatter and its text, followed by
  the blank that \<open>classes_to_color_formatter(['f7', 'b0'])(' ')\<close> appends.
\<close>

fun render_runs :: "element list \<Rightarrow> py_error + (string \<times> string) list" where
  "render_runs [] = Inr []"
| "render_runs (a # line) =
     (case classes_to_color_formatter (get_class a) of
        Inl e \<Rightarrow> Inl e
      | Inr formatter \<Rightarrow>
          (case render_runs line of
             Inl e \<Rightarrow> Inl e
           | Inr cells \<Rightarrow> Inr ((formatter, text_of a) # cells)))"

definition render_line :: "element list \<Rightarrow> py_error + (string \<times> string) list" where
  "render_line line =
     (case render_runs line of
        Inl e \<Rightarrow> Inl e
      | Inr cells \<Rightarrow>
          (case classes_to_color_formatter [''f7'', ''b0''] of
             Inl e \<Rightarrow> Inl e
           | Inr formatter \<Rightarrow> Inr (cells @ [(formatter, '' '')])))"

fun render_lines :: "element list list \<Rightarrow> py_error + (string \<times> string) list list" where
  "render_lines [] = Inr []"
| "render_lines (line # lines) =
     (case render_line line of
        Inl e \<Rightarrow> Inl e
      | Inr r \<Rightarrow>
          (case render_lines lines of Inl e \<Rightarrow> Inl e | Inr rs \<Rightarrow> Inr (r # rs)))"

type_synonym frame = "string \<times> (string \<times> string) list list"

text \<open>
  \<open>display_page\<close> for a parsed document \<open>soup\<close> and the configured width: the header text
  and the rendered body lines that it prints, or the exception it leaves by.
  \<open>AttributeError\<close> is the attribute access on \<open>None\<close> along \<open>soup.html.body.div\<close> and
  \<open>ttx.children\<close>; \<open>ValueError\<close> is the unpacking \<open>hdr, txt = ...\<close> of a list that does not
  have exactly two elements.
\<close>

definition display_page :: "nat \<Rightarrow> element option \<Rightarrow> py_error + frame" where
  "display_page w sp =
     (case sp of
        None \<Rightarrow> Inl AttributeError
      | Some root \<Rightarrow>
     (case find_tag ''html'' (children root) of
        None \<Rightarrow> Inl AttributeError
      | Some html \<Rightarrow>
     (case find_tag ''body'' (children html) of
        None \<Rightarrow> Inl AttributeError
      | Some body \<Rightarrow>
     (case find_tag ''div'' (children body) of
        None \<Rightarrow> Inl AttributeError
      | Some ttx \<Rightarrow>
     (case filter (\<lambda>a. name a = Some ''pre'') (children ttx) of
        [hdr, txt] \<Rightarrow>
          (case render_lines (wrap_lines w (children txt)) of
             Inl e \<Rightarrow> Inl e
           | Inr ls \<Rightarrow> Inr (text_of hdr, ls))
      | _ \<Rightarrow> Inl ValueError)))))"

section \<open>The page index document\<close>

text \<open>
  \<open>str.split(sep)\<close> for a separator of one character: the pieces between the
  occurrences of the separator, always at least one piece.
\<close>

fun split_on :: "char \<Rightarrow> string \<Rightarrow> string list" where
  "split_on sep [] = [[]]"
| "split_on sep (c # cs) =
     (if c = sep then [] # split_on sep cs
      else (case split_on sep cs of
              piece # pieces \<Rightarrow> (c # piece) # pieces
            | [] \<Rightarrow> [[c]]))"

text \<open>
  \<open>int(s)\<close> for a string whose characters are code points below 256, one \<open>char\<close> each;
  \<open>None\<close> stands for its \<open>ValueError\<close>. White space around the number is dropped, a sign
  may come first, and the decimal digits may be grouped by single underscores.

  The white space of \<open>int\<close> is the six ASCII characters tab, line feed, vertical tab,
  form feed, carriage return and blank, and the Unicode spaces, of which U+0085 and
  U+00A0 lie below 256. The separators U+001C to U+001F, which \<open>str.strip\<close> drops,
  are not among them. The only decimal digits below 256 are \<open>0\<close> to \<open>9\<close>.
\<close>

definition is_space :: "char \<Rightarrow> bool" where
  "is_space c \<longleftrightarrow>
     c \<in> set [CHR 0x09, CHR 0x0A, CHR 0x0B, CHR 0x0C, CHR 0x0D, CHR '' '',
              CHR 0x85, CHR 0xA0]"

definition strip :: "string \<Rightarrow> string" where
  "strip s = rev (dropWhile is_space (rev (dropWhile is_space s)))"

definition digit_value :: "char \<Rightarrow> nat option" where
  "digit_value =
     map_of [(CHR ''0'', 0), (CHR ''1'', 1), (CHR ''2'', 2), (CHR ''3'', 3), (CHR ''4'', 4),
             (CHR ''5'', 5), (CHR ''6'', 6), (CHR ''7'', 7), (CHR ''8'', 8), (CHR ''9'', 9)]"

fun py_digits :: "nat \<Rightarrow> string \<Rightarrow> nat option" where
  "py_digits acc [] = Some acc"
| "py_digits acc [c] =
     (case digit_value c of Some d \<Rightarrow> Some (10 * acc + d) | None \<Rightarrow> None)"
| "py_digits acc (c # c' # cs) =
     (case digit_value c of
        Some d \<Rightarrow> py_digits (10 * acc + d) (c' # cs)
      | None \<Rightarrow>
          if c = CHR ''_'' then
            (case digit_value c' of
               Some d \<Rightarrow> py_digits (10 * acc + d) cs
             | None \<Rightarrow> None)
          else None)"

text \<open>
  The interpreter refuses to convert a string of more decimal digits than its limit,
  4300 by default (\<open>sys.int_info.default_max_str_digits\<close>); underscores, the sign and
  the white space do not count.
\<close>

definition int_max_str_digits :: nat where
  "int_max_str_digits = 4300"

definition py_int :: "string \<Rightarrow> int option" where
  "py_int s =
     (case strip s of
        [] \<Rightarrow> None
      | c # cs \<Rightarrow>
          (case (if c = CHR ''-'' then (True, cs)
                 else if c = CHR ''+'' then (False, cs)
                 else (False, c # cs)) of
             (negative, body) \<Rightarrow>
               (case body of
                  [] \<Rightarrow> None
                | d # ds \<Rightarrow>
                    (case digit_value d of
                       None \<Rightarrow> None
                     | Some v \<Rightarrow>
                         if length (filter (\<lambda>x. digit_value x \<noteq> None) body)
                              > int_max_str_digits
                         then None
                         else map_option (\<lambda>n. if negative then - int n else int n)
                                (py_digits v ds)))))"

text \<open>
  \<open>response.read().decode().split('{')[1].split('}')[0]\<close>
\<close>

definition data_string :: "string \<Rightarrow> py_error + string" where
  "data_string body =
     (case split_on CHR ''{'' body of
        _ # x # _ \<Rightarrow>
          (case split_on CHR ''}'' x of d # _ \<Rightarrow> Inr d | [] \<Rightarrow> Inl IndexError)
      | _ \<Rightarrow> Inl IndexError)"

text \<open>
  \<open>list(map(int, a.split(':')))\<close>: the first field that is not an integer raises.
\<close>

fun ints :: "string list \<Rightarrow> py_error + int list" where
  "ints [] = Inr []"
| "ints (f # fs) =
     (case py_int f of
        None \<Rightarrow> Inl ValueError
      | Some i \<Rightarrow> (case ints fs of Inl e \<Rightarrow> Inl e | Inr is \<Rightarrow> Inr (i # is)))"

text \<open>
  \<open>dict(...)\<close> over the entries in order: every entry must be a sequence of exactly two
  elements (\<open>ValueError\<close> otherwise), and a later key overwrites an earlier one.
\<close>

fun dict :: "string list \<Rightarrow> (int \<rightharpoonup> int) \<Rightarrow> py_error + (int \<rightharpoonup> int)" where
  "dict [] d = Inr d"
| "dict (a # as) d =
     (case ints (split_on CHR '':'' a) of
        Inl e \<Rightarrow> Inl e
      | Inr [k, v] \<Rightarrow> dict as (d(k \<mapsto> v))
      | Inr _ \<Rightarrow> Inl ValueError)"

definition parse_pages :: "string \<Rightarrow> py_error + (int \<rightharpoonup> int)" where
  "parse_pages body =
     (case data_string body of
        Inl e \<Rightarrow> Inl e
      | Inr ds \<Rightarrow> dict (split_on CHR '','' ds) Map.empty)"

section \<open>The application state\<close>

text \<open>
  The attributes of a \<open>Teletext\<close> object that the navigation reads or writes.
  \<open>page_info\<close> is \<open>None\<close> until the page index has been loaded. \<open>stderr\<close> collects what
  \<open>get_page_info\<close> writes to the standard error stream.
\<close>

record teletext =
  width :: nat
  height :: nat
  start_page :: int
  page :: int
  sub_page :: int
  current_input :: "int list"
  page_info :: "(int \<rightharpoonup> int) option"
  min_page :: int
  max_page :: int
  soup :: "element option"
  history :: "(int \<times> int) list"
  stderr :: "py_error list"

definition APP_WIDTH :: nat where "APP_WIDTH = 40"
definition APP_HEIGHT :: nat where "APP_HEIGHT = 24"
definition START_PAGE :: int where "START_PAGE = 100"

text \<open>
  The remote service, as one navigation sees it: what \<open>urlopen\<close>, \<open>read\<close> and the
  \<open>BeautifulSoup\<close> constructor give for the address of a page and sub-page, a parsed
  document or the exception raised on the way. The address
  \<open>f'{app_url}/{page}_{"%02d" % (sub_page,)}.htm'\<close> is determined by the two numbers.
\<close>

type_synonym world = "int \<Rightarrow> int \<Rightarrow> py_error + element"

text \<open>The assignments of \<open>__init__\<close> before its first call.\<close>

definition initial :: teletext where
  "initial =
     \<lparr>width = APP_WIDTH, height = APP_HEIGHT, start_page = START_PAGE, page = START_PAGE,
      sub_page = 1, current_input = [], page_info = None, min_page = 100, max_page = 899,
      soup = None, history = [], stderr = []\<rparr>"

text \<open>
  \<open>get_page_info\<close>: \<open>response\<close> is the decoded body of the index document, or the
  exception that \<open>urlopen\<close>, \<open>read\<close> or \<open>decode\<close> raised. Every exception is caught and
  written to the standard error stream.
\<close>

definition get_page_info :: "py_error + string \<Rightarrow> teletext \<Rightarrow> teletext" where
  "get_page_info response s =
     (case (case response of Inl e \<Rightarrow> Inl e | Inr body \<Rightarrow> parse_pages body) of
        Inl error \<Rightarrow> s\<lparr>stderr := stderr s @ [error]\<rparr>
      | Inr info \<Rightarrow> s\<lparr>page_info := Some info\<rparr>)"

text \<open>Lines 170 and 171 of \<open>load\<close>: the visit is recorded first.\<close>

definition push_history :: "bool \<Rightarrow> teletext \<Rightarrow> teletext" where
  "push_history no_history s =
     (if \<not> no_history then s\<lparr>history := history s @ [(page s, sub_page s)]\<rparr> else s)"

text \<open>
  Lines 173 to 182 of \<open>load\<close>, for a loaded index \<open>info\<close>. \<open>sub_page'\<close> is \<open>None\<close> for the
  default argument; \<open>if sub_page and ...\<close> is false for \<open>None\<close> and for \<open>0\<close>.
\<close>

definition select_page :: "(int \<rightharpoonup> int) \<Rightarrow> int \<Rightarrow> int option \<Rightarrow> teletext \<Rightarrow> teletext" where
  "select_page info page' sub_page' s =
     (case info page' of
        Some n \<Rightarrow>
          (case sub_page' of
             Some sp \<Rightarrow>
               if sp \<noteq> 0 \<and> 1 \<le> sp \<and> sp \<le> n
               then s\<lparr>page := page', sub_page := sp\<rparr>
               else s\<lparr>page := page', sub_page := 1\<rparr>
           | None \<Rightarrow> s\<lparr>page := page', sub_page := 1\<rparr>)
      | None \<Rightarrow> s\<lparr>page := start_page s, sub_page := 1\<rparr>)"

text \<open>
  Lines 184 to 188 of \<open>load\<close>: fetch and parse the selected page, store the document,
  display it. Nothing catches an exception here.
\<close>

definition fetch_and_display :: "world \<Rightarrow> teletext \<Rightarrow> outcome \<times> teletext" where
  "fetch_and_display w s =
     (case w (page s) (sub_page s) of
        Inl e \<Rightarrow> (Raised e, s)
      | Inr document \<Rightarrow>
          (case display_page (width s) (Some document) of
             Inl e \<Rightarrow> (Raised e, s\<lparr>soup := Some document\<rparr>)
           | Inr printed \<Rightarrow> (Returned, s\<lparr>soup := Some document\<rparr>)))"

text \<open>
  \<open>load\<close>. With no index loaded, \<open>page in self.page_info\<close> is a membership test on
  \<open>None\<close>, a \<open>TypeError\<close>.
\<close>

definition load :: "world \<Rightarrow> int \<Rightarrow> int option \<Rightarrow> bool \<Rightarrow> teletext \<Rightarrow> outcome \<times> teletext" where
  "load w page' sub_page' no_history s =
     (case page_info s of
        None \<Rightarrow> (Raised TypeError, push_history no_history s)
      | Some info \<Rightarrow>
          fetch_and_display w (select_page info page' sub_page' (push_history no_history s)))"

text \<open>
  \<open>reduce(function, sequence)\<close> without an initial value; a \<open>TypeError\<close> on the empty
  sequence.
\<close>

definition reduce :: "('a \<Rightarrow> 'a \<Rightarrow> 'a) \<Rightarrow> 'a list \<Rightarrow> py_error + 'a" where
  "reduce f xs = (case xs of [] \<Rightarrow> Inl TypeError | x # rest \<Rightarrow> Inr (foldl f x rest))"

definition load_number :: "world \<Rightarrow> int \<Rightarrow> teletext \<Rightarrow> outcome \<times> teletext" where
  "load_number w number s =
     (let s1 = s\<lparr>current_input := current_input s @ [number]\<rparr> in
      if length (current_input s1) = 3 then
        (case reduce (\<lambda>a b. a * 10 + b) (current_input s1) of
           Inl e \<Rightarrow> (Raised e, s1)
         | Inr page' \<Rightarrow>
             (case load w page' None False s1 of
                (Returned, s2) \<Rightarrow> (Returned, s2\<lparr>current_input := []\<rparr>)
              | (Raised e, s2) \<Rightarrow> (Raised e, s2)))
      else (Returned, s1))"

definition load_previous :: "world \<Rightarrow> teletext \<Rightarrow> outcome \<times> teletext" where
  "load_previous w s = load w (page s - 1) None False s"

definition load_next :: "world \<Rightarrow> teletext \<Rightarrow> outcome \<times> teletext" where
  "load_next w s = load w (page s + 1) None False s"

definition load_previous_sub_page :: "world \<Rightarrow> teletext \<Rightarrow> outcome \<times> teletext" where
  "load_previous_sub_page w s =
     (if sub_page s > 1 then load w (page s) (Some (sub_page s - 1)) False s
      else load w (page s - 1) None False s)"

text \<open>
  \<open>self.page_info[self.page]\<close> is a \<open>TypeError\<close> on \<open>None\<close> and a \<open>KeyError\<close> for a page
  that the index does not have.
\<close>

definition load_next_sub_page :: "world \<Rightarrow> teletext \<Rightarrow> outcome \<times> teletext" where
  "load_next_sub_page w s =
     (case page_info s of
        None \<Rightarrow> (Raised TypeError, s)
      | Some info \<Rightarrow>
          (case info (page s) of
             None \<Rightarrow> (Raised KeyError, s)
           | Some n \<Rightarrow>
               if sub_page s < n then load w (page s) (Some (sub_page s + 1)) False s
               else load w (page s + 1) None False s))"

text \<open>
  \<open>go_back_in_history\<close>: the \<open>try\<close> block holds the \<open>pop\<close> and the \<open>load\<close>, and an
  \<open>IndexError\<close> of either is passed over.
\<close>

definition go_back_in_history :: "world \<Rightarrow> teletext \<Rightarrow> outcome \<times> teletext" where
  "go_back_in_history w s =
     (if history s = [] then (Returned, s)
      else
        (case last (history s) of (page', sub_page') \<Rightarrow>
           (case load w page' (Some sub_page') True (s\<lparr>history := butlast (history s)\<rparr>) of
              (Raised IndexError, s') \<Rightarrow> (Returned, s')
            | r \<Rightarrow> r)))"

text \<open>
  The key that \<open>inkey\<close> returned: none within the second, one of the special keys of the
  dispatch table, a printable character, or any other special key.
\<close>

datatype key =
  NoKey | KEY_ESCAPE | KEY_BACKSPACE | KEY_LEFT | KEY_RIGHT | KEY_DOWN | KEY_UP
  | Printable char | OtherKey

definition digit_keys :: "(char \<times> int) list" where
  "digit_keys =
     [(CHR ''0'', 0), (CHR ''1'', 1), (CHR ''2'', 2), (CHR ''3'', 3), (CHR ''4'', 4),
      (CHR ''5'', 5), (CHR ''6'', 6), (CHR ''7'', 7), (CHR ''8'', 8), (CHR ''9'', 9)]"

text \<open>
  \<open>handle_events\<close> without the clock: the dispatch on the key. \<open>sys.exit\<close> raises
  \<open>SystemExit\<close>; a key that the table does not have runs \<open>dummy\<close>.
\<close>

definition handle_events :: "world \<Rightarrow> key \<Rightarrow> teletext \<Rightarrow> outcome \<times> teletext" where
  "handle_events w k s =
     (case k of
        NoKey \<Rightarrow> (Returned, s)
      | KEY_ESCAPE \<Rightarrow> (Raised SystemExit, s)
      | KEY_BACKSPACE \<Rightarrow> go_back_in_history w s
      | KEY_LEFT \<Rightarrow> load_previous w s
      | KEY_RIGHT \<Rightarrow> load_next w s
      | KEY_DOWN \<Rightarrow> load_previous_sub_page w s
      | KEY_UP \<Rightarrow> load_next_sub_page w s
      | Printable c \<Rightarrow>
          if c = CHR ''-'' then load_previous_sub_page w s
          else if c = CHR ''+'' then load_next_sub_page w s
          else (case map_of digit_keys c of
                  Some number \<Rightarrow> load_number w number s
                | None \<Rightarrow> (Returned, s))
      | OtherKey \<Rightarrow> (Returned, s))"

text \<open>
  The event loop \<open>exec_\<close> over the keys that arrive, each with the answers of the service
  at that moment. The loop ends only by an exception; \<open>Returned\<close> after the last key of the
  list says that the loop is still running.
\<close>

fun exec_loop :: "(key \<times> world) list \<Rightarrow> teletext \<Rightarrow> outcome \<times> teletext" where
  "exec_loop [] s = (Returned, s)"
| "exec_loop ((k, w) # events) s =
     (case handle_events w k s of
        (Returned, s') \<Rightarrow> exec_loop events s'
      | (Raised e, s') \<Rightarrow> (Raised e, s'))"

text \<open>
  \<open>__init__\<close>, without the clock: the attributes, the index, the start page.
\<close>

definition init :: "py_error + string \<Rightarrow> world \<Rightarrow> outcome \<times> teletext" where
  "init response w =
     (let s = get_page_info response initial in load w (start_page s) None False s)"


section \<open>Specification predicates\<close>

text \<open>
  The last tag of one kind in a sequence of style tags, if there is one: the
  specification's reading of the colour loop, to be compared with \<open>scan_classes\<close>.
\<close>

definition last_tag_of :: "string list \<Rightarrow> string list \<Rightarrow> string option" where
  "last_tag_of kind tags = List.find (\<lambda>t. t \<in> set kind) (rev tags)"

text \<open>
  The key and the value of a well-formed entry \<open>key:value\<close> of the index document:
  exactly two fields, both integers for \<open>int\<close>.
\<close>

definition entry_pair :: "string \<Rightarrow> (int \<times> int) option" where
  "entry_pair a =
     (case map py_int (split_on CHR '':'' a) of
        [Some k, Some v] \<Rightarrow> Some (k, v)
      | _ \<Rightarrow> None)"

text \<open>Every sub-page count of the loaded index is at least one.\<close>

definition positive_counts :: "teletext \<Rightarrow> bool" where
  "positive_counts s \<longleftrightarrow>
     (\<forall>info p n. page_info s = Some info \<longrightarrow> info p = Some n \<longrightarrow> 1 \<le> n)"

text \<open>
  The current sub-page lies between one and the sub-page count of the current page,
  whenever the current page is a key of the loaded index.
\<close>

definition sub_page_in_range :: "teletext \<Rightarrow> bool" where
  "sub_page_in_range s =
     (case page_info s of
        None \<Rightarrow> True
      | Some info \<Rightarrow>
          (case info (page s) of
             None \<Rightarrow> True
           | Some n \<Rightarrow> 1 \<le> sub_page s \<and> sub_page s \<le> n))"

text \<open>
  A line fits the width, or it is a single run that is wider than the width by itself.
\<close>

definition fits :: "nat \<Rightarrow> element list \<Rightarrow> bool" where
  "fits w line \<longleftrightarrow>
     line_length line \<le> w \<or> (\<exists>r. line = [r] \<and> w < length (text_of r))"

text \<open>
  Every line after the first starts with a run that the line before it had no room for.
\<close>

definition breaks :: "nat \<Rightarrow> element list list \<Rightarrow> bool" where
  "breaks w ls \<longleftrightarrow>
     (\<forall>i. Suc i < length ls \<longrightarrow>
        ls ! Suc i \<noteq> [] \<and> w < line_length (ls ! i) + length (text_of (hd (ls ! Suc i))))"

section \<open>Example inputs\<close>

text \<open>A document of the shape that the service sends, with one run in its body.\<close>

definition sample_document :: element where
  "sample_document =
     Element (Some ''[document]'') [] ''Seite 100 Hello'' [
       Element (Some ''html'') [] ''Seite 100 Hello'' [
         Element (Some ''body'') [] ''Seite 100 Hello'' [
           Element (Some ''div'') [] ''Seite 100 Hello'' [
             Element (Some ''pre'') [] ''Seite 100 '' [],
             Element (Some ''pre'') [] ''Hello'' [
               Element (Some ''b'') [''f1'', ''b4''] ''Hello'' []]]]]]"

text \<open>A service that answers every request, and one whose every request fails.\<close>

definition ok_world :: world where
  "ok_world p sp = Inr sample_document"

definition failing_world :: world where
  "failing_world p sp = Inl URLError"

text \<open>
  The application after its start against an index of two pages: page 100 with one
  sub-page and page 101 with three.
\<close>

definition example_state :: teletext where
  "example_state = snd (init (Inr ''var pages = { 100 : 1,101:3 };'') ok_world)"

text \<open>The children of a body block: four runs and a text node between them.\<close>

definition sample_runs :: "element list" where
  "sample_runs =
     [Element (Some ''b'') [''f3''] ''ab'' [],
      Element None [] '' '' [],
      Element (Some ''b'') [] ''cdefgh'' [],
      Element (Some ''b'') [''b1''] ''ij'' [],
      Element (Some ''b'') [] ''kl'' []]"

section \<open>Properties of the line wrapping\<close>

lemma foldl_add_sum: "foldl (+) a (map f xs) = (a::nat) + sum_list (map f xs)"
  by (induction xs arbitrary: a) simp_all

lemma line_length_sum: "line_length xs = sum_list (map (\<lambda>a. length (text_of a)) xs)"
  by (simp add: line_length_def foldl_add_sum)

lemma line_length_snoc: "line_length (xs @ [e]) = line_length xs + length (text_of e)"
  by (simp add: line_length_sum)

lemma line_length_single: "line_length [e] = length (text_of e)"
  by (simp add: line_length_sum)

lemma line_length_Nil: "line_length [] = 0"
  by (simp add: line_length_sum)

lemma wrap_loop_concat:
  "wrap_loop w es lines cur = (L, c) \<Longrightarrow>
     concat L @ c = concat lines @ cur @ filter (\<lambda>e. name e = Some ''b'') es"
  by (induction es arbitrary: lines cur) (auto split: if_splits)


lemma wrap_loop_fits:
  "wrap_loop w es lines cur = (L, c) \<Longrightarrow> list_all (fits w) lines \<Longrightarrow> fits w cur \<Longrightarrow>
     list_all (fits w) L \<and> fits w c"
proof (induction es arbitrary: lines cur)
  case Nil
  then show ?case by simp
next
  case (Cons e es)
  show ?case
  proof (cases "name e = Some ''b''")
    case False
    with Cons show ?thesis by simp
  next
    case b: True
    show ?thesis
    proof (cases "line_length cur + length (text_of e) > w")
      case True
      have "fits w [e]" by (auto simp: fits_def line_length_single)
      with Cons b True show ?thesis by simp
    next
      case False
      then have "fits w (cur @ [e])" by (simp add: fits_def line_length_snoc)
      with Cons b False show ?thesis by simp
    qed
  qed
qed

lemma wrap_loop_mono:
  "wrap_loop w es lines cur = (L, c) \<Longrightarrow> set lines \<subseteq> set L"
proof (induction es arbitrary: lines cur)
  case Nil
  then show ?case by simp
next
  case (Cons e es)
  show ?case
  proof (cases "name e = Some ''b'' \<and> w < line_length cur + length (text_of e)")
    case True
    with Cons.prems have "wrap_loop w es (lines @ [cur]) [e] = (L, c)" by simp
    from Cons.IH[OF this] show ?thesis by simp
  next
    case False
    with Cons.prems have "\<exists>cur'. wrap_loop w es lines cur' = (L, c)"
      by (auto split: if_splits)
    with Cons.IH show ?thesis by blast
  qed
qed

lemma wrap_loop_over_cur:
  "wrap_loop w es lines [r] = (L, c) \<Longrightarrow> w < length (text_of r) \<Longrightarrow> [r] \<in> set L \<or> c = [r]"
proof (induction es arbitrary: lines)
  case Nil
  then show ?case by simp
next
  case (Cons e es)
  show ?case
  proof (cases "name e = Some ''b''")
    case False
    with Cons show ?thesis by simp
  next
    case True
    with Cons.prems have "wrap_loop w es (lines @ [[r]]) [e] = (L, c)"
      by (simp add: line_length_single)
    from wrap_loop_mono[OF this] show ?thesis by simp
  qed
qed

lemma wrap_loop_over:
  "wrap_loop w es lines cur = (L, c) \<Longrightarrow> r \<in> set es \<Longrightarrow> name r = Some ''b'' \<Longrightarrow>
     w < length (text_of r) \<Longrightarrow> [r] \<in> set L \<or> c = [r]"
proof (induction es arbitrary: lines cur)
  case Nil
  then show ?case by simp
next
  case (Cons e es)
  show ?case
  proof (cases "r = e")
    case True
    with Cons.prems have "wrap_loop w es (lines @ [cur]) [r] = (L, c)" by simp
    from wrap_loop_over_cur[OF this] Cons.prems show ?thesis by simp
  next
    case False
    with Cons show ?thesis by (auto split: if_splits)
  qed
qed


lemma breaks_push:
  assumes "breaks w (lines @ [cur])" "w < line_length cur + length (text_of e)"
  shows "breaks w ((lines @ [cur]) @ [[e]])"
  unfolding breaks_def
proof (intro allI impI)
  fix i assume i: "Suc i < length ((lines @ [cur]) @ [[e]])"
  show "((lines @ [cur]) @ [[e]]) ! Suc i \<noteq> [] \<and>
        w < line_length (((lines @ [cur]) @ [[e]]) ! i) + length (text_of (hd (((lines @ [cur]) @ [[e]]) ! Suc i)))"
  proof (cases "Suc i < length (lines @ [cur])")
    case True
    with assms(1) show ?thesis
      unfolding breaks_def by (simp add: nth_append del: append_assoc)
  next
    case False
    with i have "i = length lines" by simp
    with assms(2) show ?thesis by (simp add: nth_append)
  qed
qed

lemma breaks_extend:
  assumes "breaks w (lines @ [cur])"
  shows "breaks w (lines @ [cur @ [e]])"
  unfolding breaks_def
proof (intro allI impI)
  fix i assume i: "Suc i < length (lines @ [cur @ [e]])"
  then have I: "Suc i < length (lines @ [cur])" by simp
  with assms have A: "(lines @ [cur]) ! Suc i \<noteq> [] \<and>
        w < line_length ((lines @ [cur]) ! i) + length (text_of (hd ((lines @ [cur]) ! Suc i)))"
    unfolding breaks_def by blast
  show "(lines @ [cur @ [e]]) ! Suc i \<noteq> [] \<and>
        w < line_length ((lines @ [cur @ [e]]) ! i) + length (text_of (hd ((lines @ [cur @ [e]]) ! Suc i)))"
  proof (cases "Suc i < length lines")
    case True
    with A show ?thesis by (simp add: nth_append)
  next
    case False
    with I have "Suc i = length lines" by simp
    with A show ?thesis by (auto simp: nth_append)
  qed
qed

lemma wrap_loop_breaks:
  "wrap_loop w es lines cur = (L, c) \<Longrightarrow> breaks w (lines @ [cur]) \<Longrightarrow> breaks w (L @ [c])"
proof (induction es arbitrary: lines cur)
  case Nil
  then show ?case by simp
next
  case (Cons e es)
  then show ?case
    by (auto split: if_splits dest: breaks_push breaks_extend)
qed

section \<open>Properties of the colour resolution\<close>

lemma scan_classes_snoc:
  "scan_classes (cs @ [t]) acc =
     (case scan_classes cs acc of (fgc, bgc) \<Rightarrow>
        if t \<in> set background_classes then (fgc, t ! 1)
        else if t \<in> set foreground_classes then (t ! 1, bgc)
        else (fgc, bgc))"
  by (induction cs acc rule: scan_classes.induct) simp_all

lemma kinds_disjoint: "t \<in> set background_classes \<Longrightarrow> t \<notin> set foreground_classes"
  by (auto simp: background_classes_def foreground_classes_def)

lemma scan_classes_last:
  "scan_classes cs (f, b) =
     (case last_tag_of foreground_classes cs of None \<Rightarrow> f | Some t \<Rightarrow> t ! 1,
      case last_tag_of background_classes cs of None \<Rightarrow> b | Some t \<Rightarrow> t ! 1)"
proof (induction cs rule: rev_induct)
  case Nil
  show ?case by (simp add: last_tag_of_def)
next
  case (snoc t cs)
  show ?case
    by (simp add: scan_classes_snoc snoc last_tag_of_def kinds_disjoint)
qed

lemma find_Some_holds: "List.find P xs = Some t \<Longrightarrow> P t"
  by (induction xs) (auto split: if_splits)

lemma colors_foreground:
  "t \<in> set foreground_classes \<Longrightarrow> \<exists>c. map_of colors (t ! 1) = Some c"
  by (auto simp: foreground_classes_def colors_def)

lemma colors_background:
  "t \<in> set background_classes \<Longrightarrow> \<exists>c. map_of colors (t ! 1) = Some c"
  by (auto simp: background_classes_def colors_def)

lemma resolve_colors_closed:
  "\<exists>fg bg. resolve_colors classes = Inr (fg, bg)
     \<and> (case last_tag_of foreground_classes classes of
           None \<Rightarrow> fg = ''white'' | Some t \<Rightarrow> map_of colors (t ! 1) = Some fg)
     \<and> (case last_tag_of background_classes classes of
           None \<Rightarrow> bg = ''black'' | Some t \<Rightarrow> map_of colors (t ! 1) = Some bg)"
proof -
  have F: "\<exists>fg. (case last_tag_of foreground_classes classes of
           None \<Rightarrow> map_of colors (CHR ''7'') = Some fg \<and> fg = ''white''
         | Some t \<Rightarrow> map_of colors (t ! 1) = Some fg)"
  proof (cases "last_tag_of foreground_classes classes")
    case None
    then show ?thesis by (simp add: colors_def)
  next
    case (Some t)
    then have "t \<in> set foreground_classes"
      unfolding last_tag_of_def by (rule find_Some_holds)
    with Some colors_foreground[of t] show ?thesis by simp
  qed
  have B: "\<exists>bg. (case last_tag_of background_classes classes of
           None \<Rightarrow> map_of colors (CHR ''0'') = Some bg \<and> bg = ''black''
         | Some t \<Rightarrow> map_of colors (t ! 1) = Some bg)"
  proof (cases "last_tag_of background_classes classes")
    case None
    then show ?thesis by (simp add: colors_def)
  next
    case (Some t)
    then have "t \<in> set background_classes"
      unfolding last_tag_of_def by (rule find_Some_holds)
    with Some colors_background[of t] show ?thesis by simp
  qed
  from F B show ?thesis
    unfolding resolve_colors_def scan_classes_last
    by (auto split: option.splits)
qed

lemma resolve_colors_filter:
  "resolve_colors
     (filter (\<lambda>t. t \<in> set foreground_classes \<or> t \<in> set background_classes) classes) =
   resolve_colors classes"
proof -
  have "scan_classes
      (filter (\<lambda>t. t \<in> set foreground_classes \<or> t \<in> set background_classes) classes) acc =
    scan_classes classes acc" for acc
    by (induction classes acc rule: scan_classes.induct) simp_all
  then show ?thesis by (simp add: resolve_colors_def)
qed

section \<open>Properties of the index document\<close>

lemma py_int_white_space:
  "py_int [CHR 0x1F, CHR ''5''] = None \<and> py_int [CHR 0xA0, CHR ''5''] = Some 5
   \<and> py_int [CHR ''5'', CHR 0x85] = Some 5 \<and> py_int '' 1_0 '' = Some 10"
  by (simp add: py_int_def strip_def is_space_def digit_value_def int_max_str_digits_def)

lemma ints_Inl: "ints fs = Inl e \<Longrightarrow> e = ValueError"
  by (induction fs arbitrary: e) (auto split: option.splits sum.splits)

lemma ints_Inr_D: "ints fs = Inr is \<Longrightarrow> map py_int fs = map Some is"
  by (induction fs arbitrary: "is") (auto split: option.splits sum.splits)

lemma ints_Inr_I: "map py_int fs = map Some is \<Longrightarrow> ints fs = Inr is"
  by (induction fs arbitrary: "is") auto

lemma ints_Inr: "ints fs = Inr is \<longleftrightarrow> map py_int fs = map Some is"
  using ints_Inr_D ints_Inr_I by blast

lemma entry_pair_Some:
  "entry_pair a = Some (k, v) \<longleftrightarrow> ints (split_on CHR '':'' a) = Inr [k, v]"
  by (auto simp: entry_pair_def ints_Inr split: list.splits option.splits)

lemma dict_Cons:
  "dict (a # as) d =
     (case entry_pair a of None \<Rightarrow> Inl ValueError | Some (k, v) \<Rightarrow> dict as (d(k \<mapsto> v)))"
proof (cases "ints (split_on CHR '':'' a)")
  case (Inl e)
  then have "entry_pair a = None"
    by (cases "entry_pair a") (auto simp: entry_pair_Some)
  with Inl ints_Inl[OF Inl] show ?thesis by simp
next
  case (Inr xs)
  show ?thesis
  proof (cases "\<exists>k v. xs = [k, v]")
    case True
    then obtain k v where "xs = [k, v]" by blast
    with Inr show ?thesis by (simp add: entry_pair_Some[THEN iffD2])
  next
    case False
    with Inr have "entry_pair a = None"
      by (cases "entry_pair a") (auto simp: entry_pair_Some)
    with Inr False show ?thesis
      by (auto split: list.splits)
  qed
qed

lemma dict_well_formed:
  "map entry_pair as = map Some pairs \<Longrightarrow> dict as d = Inr (d ++ map_of (rev pairs))"
proof (induction as arbitrary: d pairs)
  case Nil
  then show ?case by simp
next
  case (Cons a as)
  then obtain k v ps where p: "pairs = (k, v) # ps" "entry_pair a = Some (k, v)"
    "map entry_pair as = map Some ps"
    by (cases pairs) auto
  have H: "d(k \<mapsto> v) ++ map_of (rev ps) = d ++ map_of (rev ps @ [(k, v)])"
    by (rule ext) (simp add: map_add_def split: option.splits)
  have "dict (a # as) d = dict as (d(k \<mapsto> v))"
    using p(2) by (simp add: dict_Cons del: dict.simps)
  also have "\<dots> = Inr (d(k \<mapsto> v) ++ map_of (rev ps))"
    by (rule Cons.IH[OF p(3)])
  finally show ?case
    by (simp only: H p(1) rev.simps)
qed

lemma dict_malformed:
  "\<exists>a \<in> set as. entry_pair a = None \<Longrightarrow> dict as d = Inl ValueError"
proof (induction as arbitrary: d)
  case Nil
  then show ?case by simp
next
  case (Cons a as)
  show ?case
  proof (cases "entry_pair a")
    case None
    then show ?thesis by (simp add: dict_Cons del: dict.simps)
  next
    case (Some kv)
    with Cons.prems have "\<exists>a \<in> set as. entry_pair a = None" by auto
    from Cons.IH[OF this] Some show ?thesis
      by (cases kv) (simp add: dict_Cons del: dict.simps)
  qed
qed

lemma map_of_distinct_graph:
  "distinct (map fst pairs) \<Longrightarrow> map_of pairs k = Some v \<longleftrightarrow> (k, v) \<in> set pairs"
  by (auto dest: map_of_SomeD intro: map_of_is_SomeI)


lemma rev_distinct_map_of:
  "distinct (map fst pairs) \<Longrightarrow> map_of (rev pairs) = map_of pairs"
  by (rule ext) (metis distinct_rev map_of_distinct_graph not_Some_eq rev_map set_rev map_of_eq_None_iff)

section \<open>Properties of the navigation\<close>

subsection \<open>The example inputs, evaluated\<close>

lemma display_sample:
  "display_page 40 (Some sample_document) =
     Inr (''Seite 100 '', [[(''red_on_blue'', ''Hello''), (''white_on_black'', '' '')]])"
  by (simp add: display_page_def sample_document_def wrap_lines_def line_length_def
      render_line_def classes_to_color_formatter_def resolve_colors_def
      background_classes_def foreground_classes_def colors_def)


lemma ok_world_load [simp]:
  "width s = 40 \<Longrightarrow>
     fetch_and_display ok_world s = (Returned, s\<lparr>soup := Some sample_document\<rparr>)"
  by (simp add: fetch_and_display_def ok_world_def display_sample)

lemma parse_sample:
  "parse_pages ''var pages = { 100 : 1,101:3 };'' = Inr [100 \<mapsto> 1, 101 \<mapsto> 3]"
  by (simp add: parse_pages_def data_string_def py_int_def strip_def is_space_def digit_value_def
      int_max_str_digits_def)

lemma init_sample:
  "init (Inr ''var pages = { 100 : 1,101:3 };'') ok_world =
     (Returned,
      initial\<lparr>page_info := Some [100 \<mapsto> 1, 101 \<mapsto> 3], history := [(100, 1)],
        soup := Some sample_document\<rparr>)"
  by (simp add: init_def get_page_info_def parse_sample load_def push_history_def
      select_page_def initial_def START_PAGE_def APP_WIDTH_def)

lemma example_state_eq:
  "example_state =
     initial\<lparr>page_info := Some [100 \<mapsto> 1, 101 \<mapsto> 3], history := [(100, 1)],
       soup := Some sample_document\<rparr>"
  by (simp add: example_state_def init_sample)

subsection \<open>What a load leaves untouched\<close>

lemma fetch_and_display_fields:
  "page (snd (fetch_and_display w s)) = page s"
  "sub_page (snd (fetch_and_display w s)) = sub_page s"
  "history (snd (fetch_and_display w s)) = history s"
  "current_input (snd (fetch_and_display w s)) = current_input s"
  "page_info (snd (fetch_and_display w s)) = page_info s"
  "start_page (snd (fetch_and_display w s)) = start_page s"
  "stderr (snd (fetch_and_display w s)) = stderr s"
  "min_page (snd (fetch_and_display w s)) = min_page s"
  "max_page (snd (fetch_and_display w s)) = max_page s"
  "width (snd (fetch_and_display w s)) = width s"
  by (simp_all add: fetch_and_display_def split: sum.splits)

lemma select_page_fields:
  "history (select_page info p sp s) = history s"
  "current_input (select_page info p sp s) = current_input s"
  "page_info (select_page info p sp s) = page_info s"
  "start_page (select_page info p sp s) = start_page s"
  "width (select_page info p sp s) = width s"
  by (simp_all add: select_page_def split: option.splits)

lemma push_history_fields:
  "page (push_history nh s) = page s"
  "sub_page (push_history nh s) = sub_page s"
  "current_input (push_history nh s) = current_input s"
  "page_info (push_history nh s) = page_info s"
  "start_page (push_history nh s) = start_page s"
  "width (push_history nh s) = width s"
  "history (push_history nh s) = (if nh then history s else history s @ [(page s, sub_page s)])"
  by (simp_all add: push_history_def)

lemma load_fields:
  "page_info (snd (load w p sp nh s)) = page_info s"
  "current_input (snd (load w p sp nh s)) = current_input s"
  "start_page (snd (load w p sp nh s)) = start_page s"
  "history (snd (load w p sp nh s)) = (if nh then history s else history s @ [(page s, sub_page s)])"
  by (simp_all add: load_def fetch_and_display_fields select_page_fields push_history_fields
      split: option.splits)

lemma select_page_in_range:
  assumes "\<forall>p n. info p = Some n \<longrightarrow> 1 \<le> n"
  shows "case info (page (select_page info p sp s)) of None \<Rightarrow> True
         | Some n \<Rightarrow> 1 \<le> sub_page (select_page info p sp s) \<and> sub_page (select_page info p sp s) \<le> n"
  using assms by (auto simp: select_page_def split: option.splits)

lemma load_in_range:
  assumes "positive_counts s"
  shows "sub_page_in_range (snd (load w p sp nh s))"
proof (cases "page_info s")
  case None
  then show ?thesis by (simp add: sub_page_in_range_def load_fields)
next
  case (Some info)
  with assms have pos: "\<forall>p n. info p = Some n \<longrightarrow> 1 \<le> n"
    by (simp add: positive_counts_def)
  from Some have "snd (load w p sp nh s) =
      snd (fetch_and_display w (select_page info p sp (push_history nh s)))"
    by (simp add: load_def)
  with Some select_page_in_range[OF pos, of p sp "push_history nh s"] show ?thesis
    by (simp add: sub_page_in_range_def fetch_and_display_fields select_page_fields push_history_fields
        cong: option.case_cong)
qed

lemma load_fallback:
  assumes "page_info s = Some info" "info p = None"
  shows "page (snd (load w p sp nh s)) = start_page s \<and> sub_page (snd (load w p sp nh s)) = 1"
  using assms
  by (simp add: load_def fetch_and_display_fields select_page_def push_history_fields)

subsection \<open>The commands\<close>

lemma sub_page_in_range_iff:
  "sub_page_in_range s \<longleftrightarrow>
     (\<forall>info n. page_info s = Some info \<longrightarrow> info (page s) = Some n \<longrightarrow>
        1 \<le> sub_page s \<and> sub_page s \<le> n)"
  by (auto simp: sub_page_in_range_def split: option.splits)

lemma load_number_unfold:
  "load_number w n s =
     (case current_input s @ [n] of
        [a, b, c] \<Rightarrow>
          (fst (load w ((a * 10 + b) * 10 + c) None False (s\<lparr>current_input := [a, b, c]\<rparr>)),
           if fst (load w ((a * 10 + b) * 10 + c) None False (s\<lparr>current_input := [a, b, c]\<rparr>)) = Returned
           then (snd (load w ((a * 10 + b) * 10 + c) None False (s\<lparr>current_input := [a, b, c]\<rparr>)))\<lparr>current_input := []\<rparr>
           else snd (load w ((a * 10 + b) * 10 + c) None False (s\<lparr>current_input := [a, b, c]\<rparr>)))
      | ds \<Rightarrow> (Returned, s\<lparr>current_input := ds\<rparr>))"
proof (cases "length (current_input s @ [n]) = 3")
  case False
  then show ?thesis
    by (auto simp: load_number_def split: list.splits)
next
  case True
  then obtain a b c where abc: "current_input s @ [n] = [a, b, c]"
    by (auto simp: length_Suc_conv numeral_3_eq_3)
  obtain out s2 where r: "load w ((a * 10 + b) * 10 + c) None False (s\<lparr>current_input := [a, b, c]\<rparr>) = (out, s2)"
    by (cases "load w ((a * 10 + b) * 10 + c) None False (s\<lparr>current_input := [a, b, c]\<rparr>)")
  from abc r show ?thesis
    by (cases out) (simp_all add: load_number_def reduce_def)
qed


lemma in_range_updates [simp]:
  "sub_page_in_range (s\<lparr>current_input := ds\<rparr>) = sub_page_in_range s"
  "sub_page_in_range (s\<lparr>history := h\<rparr>) = sub_page_in_range s"
  "positive_counts (s\<lparr>current_input := ds\<rparr>) = positive_counts s"
  "positive_counts (s\<lparr>history := h\<rparr>) = positive_counts s"
  by (simp_all add: sub_page_in_range_iff positive_counts_def)

lemma snd_go_back:
  "snd (go_back_in_history w s) =
     (if history s = [] then s
      else snd (load w (fst (last (history s))) (Some (snd (last (history s)))) True
                  (s\<lparr>history := butlast (history s)\<rparr>)))"
proof (cases "history s = []")
  case True
  then show ?thesis by (simp add: go_back_in_history_def)
next
  case False
  obtain out s' where r: "load w (fst (last (history s))) (Some (snd (last (history s)))) True
                  (s\<lparr>history := butlast (history s)\<rparr>) = (out, s')"
    by (cases "load w (fst (last (history s))) (Some (snd (last (history s)))) True
                  (s\<lparr>history := butlast (history s)\<rparr>)")
  with False show ?thesis
    by (cases out) (auto simp: go_back_in_history_def case_prod_beta split: py_error.splits)
qed

lemma load_number_inv:
  assumes "positive_counts s" "sub_page_in_range s"
  shows "sub_page_in_range (snd (load_number w n s)) \<and> page_info (snd (load_number w n s)) = page_info s"
  using assms
  by (simp add: load_number_unfold load_in_range load_fields split: list.splits)

lemma go_back_inv:
  assumes "positive_counts s" "sub_page_in_range s"
  shows "sub_page_in_range (snd (go_back_in_history w s)) \<and> page_info (snd (go_back_in_history w s)) = page_info s"
  using assms
  by (simp add: snd_go_back load_in_range load_fields)

lemma load_next_sub_page_inv:
  assumes "positive_counts s" "sub_page_in_range s"
  shows "sub_page_in_range (snd (load_next_sub_page w s)) \<and> page_info (snd (load_next_sub_page w s)) = page_info s"
  using assms
  by (simp add: load_next_sub_page_def load_in_range load_fields split: option.splits)

lemma handle_events_inv:
  assumes "positive_counts s" "sub_page_in_range s"
  shows "sub_page_in_range (snd (handle_events w k s)) \<and> page_info (snd (handle_events w k s)) = page_info s"
proof (cases k)
  case (Printable c)
  with assms load_number_inv[OF assms] load_next_sub_page_inv[OF assms] show ?thesis
    by (simp add: handle_events_def load_previous_sub_page_def load_in_range load_fields
        split: option.splits)
qed (use assms go_back_inv[OF assms] load_next_sub_page_inv[OF assms] in
      \<open>simp_all add: handle_events_def load_previous_def load_next_def
          load_previous_sub_page_def load_in_range load_fields\<close>)

lemma exec_loop_inv:
  assumes "positive_counts s" "sub_page_in_range s"
  shows "sub_page_in_range (snd (exec_loop events s)) \<and> page_info (snd (exec_loop events s)) = page_info s"
  using assms
proof (induction events arbitrary: s)
  case Nil
  then show ?case by simp
next
  case (Cons ev events)
  obtain k w where ev: "ev = (k, w)" by (cases ev)
  obtain out s' where r: "handle_events w k s = (out, s')" by (cases "handle_events w k s")
  from handle_events_inv[OF Cons.prems, of w k] r
  have s': "sub_page_in_range s'" "page_info s' = page_info s" by simp_all
  with Cons.prems have pos: "positive_counts s'" by (simp add: positive_counts_def)
  show ?case
  proof (cases out)
    case Returned
    with ev r Cons.IH[OF pos s'(1)] s'(2) show ?thesis by simp
  next
    case (Raised e)
    with ev r s' show ?thesis by simp
  qed
qed

lemma init_inv:
  assumes "positive_counts (snd (init response w))"
  shows "sub_page_in_range (snd (init response w))"
proof -
  have "positive_counts (get_page_info response initial)"
    using assms by (simp add: init_def positive_counts_def load_fields Let_def)
  then show ?thesis by (simp add: init_def load_in_range Let_def)
qed

lemma handle_events_start_page: "start_page (snd (handle_events w k s)) = start_page s"
proof (cases k)
  case (Printable c)
  then show ?thesis
    by (simp add: handle_events_def load_previous_sub_page_def load_next_sub_page_def
        load_number_unfold load_fields split: option.splits list.splits)
qed (simp_all add: handle_events_def load_previous_def load_next_def snd_go_back
          load_previous_sub_page_def load_next_sub_page_def load_fields split: option.splits)

lemma exec_loop_start_page: "start_page (snd (exec_loop events s)) = start_page s"
proof (induction events arbitrary: s)
  case Nil
  show ?case by simp
next
  case (Cons ev events)
  obtain k w where ev: "ev = (k, w)" by (cases ev)
  obtain out s' where r: "handle_events w k s = (out, s')" by (cases "handle_events w k s")
  from handle_events_start_page[of w k s] r have "start_page s' = start_page s" by simp
  with ev r Cons.IH[of s'] show ?case by (cases out) simp_all
qed

lemma init_start_page: "start_page (snd (init response w)) = START_PAGE"
  by (simp add: init_def Let_def load_fields get_page_info_def initial_def split: sum.splits)

lemma handle_events_page_info: "page_info (snd (handle_events w k s)) = page_info s"
proof (cases k)
  case (Printable c)
  then show ?thesis
    by (simp add: handle_events_def load_previous_sub_page_def load_next_sub_page_def
        load_number_unfold load_fields split: option.splits list.splits)
qed (simp_all add: handle_events_def load_previous_def load_next_def snd_go_back
          load_previous_sub_page_def load_next_sub_page_def load_fields split: option.splits)

lemma exec_loop_page_info: "page_info (snd (exec_loop events s)) = page_info s"
proof (induction events arbitrary: s)
  case Nil
  show ?case by simp
next
  case (Cons ev events)
  obtain k w where ev: "ev = (k, w)" by (cases ev)
  obtain out s' where r: "handle_events w k s = (out, s')" by (cases "handle_events w k s")
  from handle_events_page_info[of w k s] r have "page_info s' = page_info s" by simp
  with ev r Cons.IH[of s'] show ?case by (cases out) simp_all
qed

subsection \<open>The stored page bounds\<close>








section \<open>The claims on the line wrapping\<close>

lemma sample_wrap:
  "wrap_lines 4 sample_runs =
     [[Element (Some ''b'') [''f3''] ''ab'' []],
      [Element (Some ''b'') [] ''cdefgh'' []],
      [Element (Some ''b'') [''b1''] ''ij'' [], Element (Some ''b'') [] ''kl'' []]]"
  by (simp add: wrap_lines_def sample_runs_def line_length_def)

text \<open>
  Claim C5. For every list of children of the body block and every width, the lines of
  \<open>wrap_lines\<close>, joined in order, are exactly the runs (the \<open>b\<close> elements) of the input
  in their order: every run sits whole in one line, none is lost, duplicated, truncated
  or split, and so the texts of the lines concatenate to the texts of the runs. A run
  whose own text is wider than the width is a line by itself.
\<close>

theorem wrap_lines_keeps_runs_whole:
  "concat (wrap_lines w txt_children) = filter (\<lambda>e. name e = Some ''b'') txt_children
   \<and> concat (map text_of (concat (wrap_lines w txt_children))) =
       concat (map text_of (filter (\<lambda>e. name e = Some ''b'') txt_children))
   \<and> (\<forall>r \<in> set txt_children. name r = Some ''b'' \<and> w < length (text_of r) \<longrightarrow>
         [r] \<in> set (wrap_lines w txt_children))"
proof -
  obtain L c where r: "wrap_loop w txt_children [] [] = (L, c)"
    by (cases "wrap_loop w txt_children [] []")
  then have lines: "wrap_lines w txt_children = L @ [c]"
    by (simp add: wrap_lines_def)
  from wrap_loop_concat[OF r]
  have whole: "concat (wrap_lines w txt_children) =
      filter (\<lambda>e. name e = Some ''b'') txt_children"
    by (simp add: lines)
  have over: "[x] \<in> set (wrap_lines w txt_children)"
    if "x \<in> set txt_children" "name x = Some ''b''" "w < length (text_of x)" for x
    using wrap_loop_over[OF r that] by (auto simp: lines)
  from whole over show ?thesis by simp
qed

text \<open>
  The theorem at width 4 on \<open>sample_runs\<close>, whose third child is wider than the width.
\<close>

theorem wrap_lines_keeps_runs_whole_witness:
  "concat (wrap_lines 4 sample_runs) =
     [Element (Some ''b'') [''f3''] ''ab'' [], Element (Some ''b'') [] ''cdefgh'' [],
      Element (Some ''b'') [''b1''] ''ij'' [], Element (Some ''b'') [] ''kl'' []]
   \<and> concat (map text_of (concat (wrap_lines 4 sample_runs))) = ''abcdefghijkl''
   \<and> [Element (Some ''b'') [] ''cdefgh'' []] \<in> set (wrap_lines 4 sample_runs)"
  using wrap_lines_keeps_runs_whole[of 4 sample_runs]
  by (simp add: sample_runs_def)

text \<open>
  Claim C6. For every list of children and every width, each line of \<open>wrap_lines\<close> has
  a sum of run text lengths of at most the width, unless it is a single run wider than
  the width; a line after the first starts with a run that would have made the sum of
  the line before it exceed the width (\<open>line_length\<close> is that sum); the line accumulated
  last is always appended to the result, and without any run the result is exactly one
  empty line.
\<close>

theorem wrap_lines_width_bound:
  "(\<forall>line \<in> set (wrap_lines w txt_children).
      line_length line \<le> w \<or> (\<exists>r. line = [r] \<and> w < length (text_of r)))
   \<and> (\<forall>i. Suc i < length (wrap_lines w txt_children) \<longrightarrow>
         wrap_lines w txt_children ! Suc i \<noteq> [] \<and>
         w < line_length (wrap_lines w txt_children ! i)
                   + length (text_of (hd (wrap_lines w txt_children ! Suc i))))
   \<and> (\<forall>line. line_length line = sum_list (map (\<lambda>a. length (text_of a)) line))
   \<and> wrap_lines w txt_children =
        fst (wrap_loop w txt_children [] []) @ [snd (wrap_loop w txt_children [] [])]
   \<and> wrap_lines w [] = [[]]
   \<and> (filter (\<lambda>e. name e = Some ''b'') txt_children = [] \<longrightarrow>
        wrap_lines w txt_children = [[]])"
proof -
  obtain L c where r: "wrap_loop w txt_children [] [] = (L, c)"
    by (cases "wrap_loop w txt_children [] []")
  then have lines: "wrap_lines w txt_children = L @ [c]"
    by (simp add: wrap_lines_def)
  have "fits w []" by (simp add: fits_def line_length_Nil)
  with wrap_loop_fits[OF r] have "list_all (fits w) L" "fits w c" by simp_all
  then have 1: "\<forall>line \<in> set (wrap_lines w txt_children).
      line_length line \<le> w \<or> (\<exists>r. line = [r] \<and> w < length (text_of r))"
    by (auto simp: lines list_all_iff fits_def)
  have "breaks w ([] @ [[]])" by (simp add: breaks_def)
  from wrap_loop_breaks[OF r this]
  have 2: "\<forall>i. Suc i < length (wrap_lines w txt_children) \<longrightarrow>
         wrap_lines w txt_children ! Suc i \<noteq> [] \<and>
         w < line_length (wrap_lines w txt_children ! i)
                   + length (text_of (hd (wrap_lines w txt_children ! Suc i)))"
    unfolding lines breaks_def .
  have 3: "wrap_lines w txt_children =
        fst (wrap_loop w txt_children [] []) @ [snd (wrap_loop w txt_children [] [])]"
    by (simp add: lines r)
  have 4: "wrap_lines w [] = [[]]" by (simp add: wrap_lines_def)
  have 5: "wrap_lines w txt_children = [[]]"
    if "filter (\<lambda>e. name e = Some ''b'') txt_children = []"
  proof -
    from wrap_loop_concat[OF r] that have c: "concat L = []" "c = []" by simp_all
    have "L = []"
    proof (rule ccontr)
      assume "L \<noteq> []"
      then have "Suc 0 < length (L @ [c])" by (cases L) simp_all
      with 2 have "(L @ [c]) ! Suc 0 \<noteq> []" unfolding lines by blast
      moreover have "(L @ [c]) ! Suc 0 \<in> set (L @ [c])"
        using \<open>Suc 0 < length (L @ [c])\<close> by (rule nth_mem)
      ultimately show False using c by auto
    qed
    with c show ?thesis by (simp add: lines)
  qed
  from 1 2 3 4 5 show ?thesis by (simp add: line_length_sum)
qed

text \<open>
  The theorem at width 4 on \<open>sample_runs\<close> and on a body block without runs.
\<close>

theorem wrap_lines_width_bound_witness:
  "line_length [Element (Some ''b'') [''b1''] ''ij'' [], Element (Some ''b'') [] ''kl'' []] \<le> 4
   \<and> wrap_lines 4 sample_runs ! Suc 0 \<noteq> []
   \<and> 4 < line_length (wrap_lines 4 sample_runs ! 0)
            + length (text_of (hd (wrap_lines 4 sample_runs ! Suc 0)))
   \<and> wrap_lines 4 [Element None [] ''x'' []] = [[]]
   \<and> length (wrap_lines 4 sample_runs) = 3"
proof -
  note T = wrap_lines_width_bound[of 4 sample_runs]
  have a: "[Element (Some ''b'') [''b1''] ''ij'' [], Element (Some ''b'') [] ''kl'' []]
      \<in> set (wrap_lines 4 sample_runs)"
    by (simp add: sample_wrap)
  have b: "Suc 0 < length (wrap_lines 4 sample_runs)"
    by (simp add: sample_wrap)
  from T[THEN conjunct1] a
  have "line_length [Element (Some ''b'') [''b1''] ''ij'' [], Element (Some ''b'') [] ''kl'' []] \<le> 4
      \<or> (\<exists>r. [Element (Some ''b'') [''b1''] ''ij'' [], Element (Some ''b'') [] ''kl'' []] = [r]
             \<and> 4 < length (text_of r))"
    by (rule bspec)
  then have 1: "line_length [Element (Some ''b'') [''b1''] ''ij'' [], Element (Some ''b'') [] ''kl'' []] \<le> 4"
    by simp
  from T[THEN conjunct2, THEN conjunct1] b
  have 2: "wrap_lines 4 sample_runs ! Suc 0 \<noteq> []
     \<and> 4 < line_length (wrap_lines 4 sample_runs ! 0)
            + length (text_of (hd (wrap_lines 4 sample_runs ! Suc 0)))"
    by blast
  from wrap_lines_width_bound[of 4 "[Element None [] ''x'' []]"]
  have 3: "wrap_lines 4 [Element None [] ''x'' []] = [[]]" by simp
  have 4: "length (wrap_lines 4 sample_runs) = 3" by (simp add: sample_wrap)
  from 1 2 3 4 show ?thesis by blast
qed

section \<open>The claim on the colours\<close>

text \<open>
  Claim C7. For every sequence of style tags the colour loop never fails, and its result
  is decided by the last tag of each kind: the foreground is the colour of the digit of
  the last tag among \<open>f0\<close> to \<open>f7\<close>, white without such a tag; the background is the
  colour of the digit of the last tag among \<open>b0\<close> to \<open>b7\<close>, black without such a tag.
  Tags of neither kind are ignored: dropping them does not change the result. The tags
  \<open>f1\<close>, \<open>b0\<close>, \<open>f3\<close> give yellow on black, and no tags give white on black.
\<close>

theorem classes_to_color_last_tag_wins:
  "(\<exists>fg bg. resolve_colors classes = Inr (fg, bg)
      \<and> classes_to_color_formatter classes = Inr (fg @ ''_on_'' @ bg)
      \<and> (case last_tag_of foreground_classes classes of
            None \<Rightarrow> fg = ''white''
          | Some t \<Rightarrow> map_of colors (t ! 1) = Some fg)
      \<and> (case last_tag_of background_classes classes of
            None \<Rightarrow> bg = ''black''
          | Some t \<Rightarrow> map_of colors (t ! 1) = Some bg))
   \<and> resolve_colors
        (filter (\<lambda>t. t \<in> set foreground_classes \<or> t \<in> set background_classes) classes) =
      resolve_colors classes
   \<and> resolve_colors [''f1'', ''b0'', ''f3''] = Inr (''yellow'', ''black'')
   \<and> resolve_colors [] = Inr (''white'', ''black'')"
proof -
  from resolve_colors_closed[of classes] obtain fg bg where
    r: "resolve_colors classes = Inr (fg, bg)"
    and f: "case last_tag_of foreground_classes classes of
            None \<Rightarrow> fg = ''white'' | Some t \<Rightarrow> map_of colors (t ! 1) = Some fg"
    and b: "case last_tag_of background_classes classes of
            None \<Rightarrow> bg = ''black'' | Some t \<Rightarrow> map_of colors (t ! 1) = Some bg"
    by blast
  from r have c: "classes_to_color_formatter classes = Inr (fg @ ''_on_'' @ bg)"
    by (simp add: classes_to_color_formatter_def)
  have e1: "resolve_colors [''f1'', ''b0'', ''f3''] = Inr (''yellow'', ''black'')"
    by (simp add: resolve_colors_def background_classes_def foreground_classes_def colors_def)
  have e2: "resolve_colors [] = Inr (''white'', ''black'')"
    by (simp add: resolve_colors_def colors_def)
  from r c f b resolve_colors_filter[of classes] e1 e2 show ?thesis by blast
qed

text \<open>
  The theorem on five tags, two of them of neither kind.
\<close>

theorem classes_to_color_last_tag_wins_witness:
  "resolve_colors [''b2'', ''x'', ''f5'', ''F1'', ''b6''] = Inr (''magenta'', ''cyan'')
   \<and> classes_to_color_formatter [''b2'', ''x'', ''f5'', ''F1'', ''b6''] = Inr ''magenta_on_cyan''"
proof -
  have f: "last_tag_of foreground_classes [''b2'', ''x'', ''f5'', ''F1'', ''b6''] = Some ''f5''"
    by (simp add: last_tag_of_def foreground_classes_def)
  have b: "last_tag_of background_classes [''b2'', ''x'', ''f5'', ''F1'', ''b6''] = Some ''b6''"
    by (simp add: last_tag_of_def background_classes_def)
  from classes_to_color_last_tag_wins[of "[''b2'', ''x'', ''f5'', ''F1'', ''b6'']"]
  show ?thesis
    by (auto simp: f b colors_def)
qed

section \<open>The claims on the page index\<close>

text \<open>
  The white space of \<open>int\<close> in the index document: an entry padded with U+00A0 is
  loaded, an entry that starts with U+001F fails the load.
\<close>

lemma get_page_info_white_space:
  "get_page_info (Inr (CHR ''{'' # CHR 0xA0 # ''100:1}'')) initial =
     initial\<lparr>page_info := Some [100 \<mapsto> 1]\<rparr>
   \<and> get_page_info (Inr (CHR ''{'' # CHR 0x1F # ''100:1}'')) initial =
       initial\<lparr>stderr := [ValueError]\<rparr>"
  by (simp add: get_page_info_def parse_pages_def data_string_def py_int_def strip_def
      is_space_def digit_value_def int_max_str_digits_def initial_def)

text \<open>
  Claim C3, as the code has it. The load of the page index is all or nothing. When the
  document cannot be fetched, when it has no \<open>{\<close>, or when one of its entries is not
  a pair of two integers, \<open>get_page_info\<close> only reports the exception and leaves
  \<open>page_info\<close> as it was: no part of the document is taken. When every entry is a pair
  \<open>key:value\<close> of two integers, \<open>page_info\<close> becomes the mapping of these pairs, a later
  pair overriding an earlier one with the same key; a repeated key is no failure. With
  no key repeated the mapping holds exactly the pairs of the document.
\<close>

theorem get_page_info_all_or_nothing:
  "(\<forall>e. response = Inl e \<longrightarrow> get_page_info response s = s\<lparr>stderr := stderr s @ [e]\<rparr>)
   \<and> (\<forall>body e. response = Inr body \<longrightarrow> data_string body = Inl e \<longrightarrow>
         get_page_info response s = s\<lparr>stderr := stderr s @ [e]\<rparr>)
   \<and> (\<forall>body ds. response = Inr body \<longrightarrow> data_string body = Inr ds \<longrightarrow>
         (\<exists>a \<in> set (split_on CHR '','' ds). entry_pair a = None) \<longrightarrow>
         get_page_info response s = s\<lparr>stderr := stderr s @ [ValueError]\<rparr>)
   \<and> (\<forall>body ds pairs. response = Inr body \<longrightarrow> data_string body = Inr ds \<longrightarrow>
         map entry_pair (split_on CHR '','' ds) = map Some pairs \<longrightarrow>
         get_page_info response s = s\<lparr>page_info := Some (map_of (rev pairs))\<rparr>
         \<and> (distinct (map fst pairs) \<longrightarrow>
              (\<forall>k v. map_of (rev pairs) k = Some v \<longleftrightarrow> (k, v) \<in> set pairs)))"
proof -
  have 1: "get_page_info (Inl e) s = s\<lparr>stderr := stderr s @ [e]\<rparr>" for e
    by (simp add: get_page_info_def)
  have 2: "get_page_info (Inr body) s = s\<lparr>stderr := stderr s @ [e]\<rparr>"
    if "data_string body = Inl e" for body e
    using that by (simp add: get_page_info_def parse_pages_def)
  have 3: "get_page_info (Inr body) s = s\<lparr>stderr := stderr s @ [ValueError]\<rparr>"
    if "data_string body = Inr ds" "\<exists>a \<in> set (split_on CHR '','' ds). entry_pair a = None"
    for body ds
    using that(1) dict_malformed[OF that(2), of Map.empty]
    by (simp add: get_page_info_def parse_pages_def)
  have 4: "get_page_info (Inr body) s = s\<lparr>page_info := Some (map_of (rev pairs))\<rparr>"
    if "data_string body = Inr ds" "map entry_pair (split_on CHR '','' ds) = map Some pairs"
    for body ds pairs
    using that(1) dict_well_formed[OF that(2), of Map.empty]
    by (simp add: get_page_info_def parse_pages_def)
  have 5: "map_of (rev pairs) k = Some v \<longleftrightarrow> (k, v) \<in> set pairs"
    if "distinct (map fst pairs)" for pairs :: "(int \<times> int) list" and k v
    using that by (simp add: rev_distinct_map_of map_of_distinct_graph)
  from 1 2 3 4 5 show ?thesis by blast
qed


text \<open>
  The theorem on a document with white space around its numbers, on a document with the
  entry \<open>10x:3\<close>, on a document without braces and on a failed request.
\<close>

theorem get_page_info_all_or_nothing_witness:
  "get_page_info (Inr ''var pages = { 100 : 1,101:3 };'') initial =
     initial\<lparr>page_info := Some (map_of [(101, 3), (100, 1)])\<rparr>
   \<and> map_of [(101, 3), (100, 1)] (101 :: int) = Some (3 :: int)
   \<and> get_page_info (Inr ''var pages = {100:1,10x:3};'') initial =
       initial\<lparr>stderr := [ValueError]\<rparr>
   \<and> get_page_info (Inr ''no braces'') initial = initial\<lparr>stderr := [IndexError]\<rparr>
   \<and> get_page_info (Inl URLError) initial = initial\<lparr>stderr := [URLError]\<rparr>"
proof -
  have d1: "data_string ''var pages = { 100 : 1,101:3 };'' = Inr '' 100 : 1,101:3 ''"
    by (simp add: data_string_def)
  have e1: "map entry_pair (split_on CHR '','' '' 100 : 1,101:3 '') =
      map Some [(100, 1), (101, 3)]"
    by (simp add: entry_pair_def py_int_def strip_def is_space_def digit_value_def
      int_max_str_digits_def)
  have d2: "data_string ''var pages = {100:1,10x:3};'' = Inr ''100:1,10x:3''"
    by (simp add: data_string_def)
  have e2: "\<exists>a \<in> set (split_on CHR '','' ''100:1,10x:3''). entry_pair a = None"
    by (simp add: entry_pair_def py_int_def strip_def is_space_def digit_value_def
      int_max_str_digits_def)
  have d3: "data_string ''no braces'' = Inl IndexError"
    by (simp add: data_string_def)
  have s: "stderr initial = []" by (simp add: initial_def)
  have dist: "distinct (map fst [(100 :: int, 1 :: int), (101, 3)])" by simp
  have mem: "(101 :: int, 3 :: int) \<in> set [(100, 1), (101, 3)]" by simp
  note T = get_page_info_all_or_nothing
  note T4 = T[of "Inr ''var pages = { 100 : 1,101:3 };''" initial,
      THEN conjunct2, THEN conjunct2, THEN conjunct2, rule_format, OF refl d1 e1]
  from T4[THEN conjunct1]
  have A1: "get_page_info (Inr ''var pages = { 100 : 1,101:3 };'') initial =
     initial\<lparr>page_info := Some (map_of [(101, 3), (100, 1)])\<rparr>"
    by simp
  from T4[THEN conjunct2, rule_format, OF dist, of 101 3] mem
  have A2: "map_of [(101, 3), (100, 1)] (101 :: int) = Some (3 :: int)"
    by simp
  from T[of "Inr ''var pages = {100:1,10x:3};''" initial,
      THEN conjunct2, THEN conjunct2, THEN conjunct1, rule_format, OF refl d2 e2] s
  have B: "get_page_info (Inr ''var pages = {100:1,10x:3};'') initial =
       initial\<lparr>stderr := [ValueError]\<rparr>"
    by simp
  from T[of "Inr ''no braces''" initial, THEN conjunct2, THEN conjunct1, rule_format,
      OF refl d3] s
  have C: "get_page_info (Inr ''no braces'') initial = initial\<lparr>stderr := [IndexError]\<rparr>"
    by simp
  from T[of "Inl URLError" initial, THEN conjunct1, rule_format, OF refl] s
  have D: "get_page_info (Inl URLError) initial = initial\<lparr>stderr := [URLError]\<rparr>"
    by simp
  from A1 A2 B C D show ?thesis by blast
qed

text \<open>
  A document that repeats the key 100 is loaded, and nothing is reported: the claim that
  a duplicate key fails the load does not hold.
\<close>

theorem duplicate_key_counterexample:
  "get_page_info (Inr ''var pages = {100:1,100:2};'') initial =
     initial\<lparr>page_info := Some [100 \<mapsto> 2]\<rparr>
   \<and> stderr (get_page_info (Inr ''var pages = {100:1,100:2};'') initial) = []"
  by (simp add: get_page_info_def parse_pages_def data_string_def py_int_def strip_def
      is_space_def digit_value_def int_max_str_digits_def initial_def)

text \<open>
  Claim C2, at the failing input. When the request for the index document fails at
  startup, \<open>get_page_info\<close> reports the exception and leaves \<open>page_info\<close> at \<open>None\<close>; the
  load of the start page that follows in \<open>__init__\<close> then raises \<open>TypeError\<close> at
  \<open>page in self.page_info\<close>, whatever the service would answer. No fallback to the
  start page takes place.
\<close>

theorem init_without_index:
  "init (Inl e) w = (Raised TypeError, initial\<lparr>history := [(START_PAGE, 1)], stderr := [e]\<rparr>)"
  by (simp add: init_def get_page_info_def load_def push_history_def initial_def)

section \<open>The claims on the navigation\<close>

text \<open>
  Claim C1, as the code has it. Let the index be loaded and let \<open>t\<close> be the state that
  \<open>load\<close> has reached before it fetches: the visit recorded in the history (unless
  \<open>no_history\<close>) and the page and sub-page selected. If the fetch of that page fails, or
  the display of the fetched document fails, then \<open>load\<close> leaves by that exception and
  nothing is rolled back: the page and sub-page are the selected ones, the recorded
  visit is still in the history, and the pending digits are untouched.
\<close>

theorem load_failure_not_rolled_back:
  assumes "page_info s = Some info"
    and "t = select_page info page' sub_page' (push_history no_history s)"
    and "w (page t) (sub_page t) = Inl e \<or>
         (\<exists>document. w (page t) (sub_page t) = Inr document \<and>
            display_page (width s) (Some document) = Inl e)"
  shows "fst (load w page' sub_page' no_history s) = Raised e
       \<and> page (snd (load w page' sub_page' no_history s)) = page t
       \<and> sub_page (snd (load w page' sub_page' no_history s)) = sub_page t
       \<and> history (snd (load w page' sub_page' no_history s)) =
           (if no_history then history s else history s @ [(page s, sub_page s)])
       \<and> current_input (snd (load w page' sub_page' no_history s)) = current_input s"
proof -
  from assms(1,2) have L: "load w page' sub_page' no_history s = fetch_and_display w t"
    by (simp add: load_def)
  from assms(2) have W: "width t = width s"
    by (simp add: select_page_fields push_history_fields)
  from assms(3) W have "fst (fetch_and_display w t) = Raised e"
    by (auto simp: fetch_and_display_def)
  with L assms(2) show ?thesis
    by (simp add: fetch_and_display_fields select_page_fields push_history_fields)
qed

text \<open>
  The theorem for a load of page 101 from page 100 against a service that fails.
\<close>

theorem load_failure_not_rolled_back_witness:
  "fst (load failing_world 101 None False example_state) = Raised URLError
   \<and> page (snd (load failing_world 101 None False example_state)) = 101
   \<and> sub_page (snd (load failing_world 101 None False example_state)) = 1
   \<and> history (snd (load failing_world 101 None False example_state)) = [(100, 1), (100, 1)]
   \<and> current_input (snd (load failing_world 101 None False example_state)) = []"
proof -
  let ?t = "select_page [100 \<mapsto> 1, 101 \<mapsto> 3] 101 None (push_history False example_state)"
  have 1: "page_info example_state = Some [100 \<mapsto> 1, 101 \<mapsto> 3]"
    by (simp add: example_state_eq)
  have 3: "failing_world (page ?t) (sub_page ?t) = Inl URLError \<or>
         (\<exists>document. failing_world (page ?t) (sub_page ?t) = Inr document \<and>
            display_page (width example_state) (Some document) = Inl URLError)"
    by (simp add: failing_world_def)
  from load_failure_not_rolled_back[where s = example_state and w = failing_world
      and e = URLError and page' = 101 and sub_page' = None and no_history = False, OF 1 refl 3]
  show ?thesis
    by (simp add: example_state_eq select_page_def push_history_def initial_def START_PAGE_def)
qed

text \<open>
  The next-page key on page 100, sub-page 1, against a service that fails: the state
  after the failure is on page 101 and has one more history entry, so it is not the state
  before the key.
\<close>

theorem rollback_counterexample:
  "page example_state = 100 \<and> sub_page example_state = 1
   \<and> fst (handle_events failing_world KEY_RIGHT example_state) = Raised URLError
   \<and> page (snd (handle_events failing_world KEY_RIGHT example_state)) = 101
   \<and> history (snd (handle_events failing_world KEY_RIGHT example_state)) =
       history example_state @ [(100, 1)]
   \<and> snd (handle_events failing_world KEY_RIGHT example_state) \<noteq> example_state"
proof -
  have "handle_events failing_world KEY_RIGHT example_state =
      (Raised URLError, example_state\<lparr>history := [(100, 1), (100, 1)], page := 101\<rparr>)"
    by (simp add: handle_events_def load_next_def load_def push_history_def select_page_def
        fetch_and_display_def failing_world_def example_state_eq initial_def START_PAGE_def)
  moreover have "example_state\<lparr>history := [(100, 1), (100, 1)], page := 101\<rparr> \<noteq> example_state"
  proof
    assume "example_state\<lparr>history := [(100, 1), (100, 1)], page := 101\<rparr> = example_state"
    then have "page (example_state\<lparr>history := [(100, 1), (100, 1)], page := 101\<rparr>) = page example_state"
      by simp
    then show False by (simp add: example_state_eq initial_def START_PAGE_def)
  qed
  ultimately show ?thesis
    by (simp add: example_state_eq initial_def START_PAGE_def)
qed

text \<open>
  Claim C4, as the code has it. Take any state reached from the start of the
  application by any sequence of keys, whatever the service answers. If every sub-page
  count of the loaded index is at least one, then the sub-page of the state lies between
  one and the count of its page, whenever that page is a key of the index. And a load of
  a page that is not a key of the loaded index leaves the state on the start page with
  sub-page one.
\<close>

theorem sub_page_in_range_reachable:
  "(positive_counts (snd (exec_loop events (snd (init response w0)))) \<longrightarrow>
      sub_page_in_range (snd (exec_loop events (snd (init response w0)))))
   \<and> (\<forall>info p sp nh w.
        page_info (snd (exec_loop events (snd (init response w0)))) = Some info \<longrightarrow>
        info p = None \<longrightarrow>
          page (snd (load w p sp nh (snd (exec_loop events (snd (init response w0)))))) = START_PAGE
          \<and> sub_page (snd (load w p sp nh (snd (exec_loop events (snd (init response w0)))))) = 1)"
proof -
  let ?start = "snd (init response w0)"
  let ?s = "snd (exec_loop events ?start)"
  have same: "page_info ?s = page_info ?start"
    by (rule exec_loop_page_info)
  have range: "sub_page_in_range ?s" if pos: "positive_counts ?s"
  proof -
    from pos same have pos0: "positive_counts ?start"
      by (simp add: positive_counts_def)
    then have "sub_page_in_range ?start" by (rule init_inv)
    with pos0 show ?thesis by (simp add: exec_loop_inv)
  qed
  have start: "start_page ?s = START_PAGE"
    by (simp add: exec_loop_start_page init_start_page)
  have fallback: "page (snd (load w p sp nh ?s)) = START_PAGE
      \<and> sub_page (snd (load w p sp nh ?s)) = 1"
    if "page_info ?s = Some info" "info p = None" for info p sp nh w
    using load_fallback[OF that] start by simp
  from range fallback show ?thesis by blast
qed

text \<open>
  The theorem for three keys after the start against the index of the example, and for
  a load of page 555, which that index does not have.
\<close>

theorem sub_page_in_range_reachable_witness:
  "sub_page_in_range
     (snd (exec_loop [(KEY_RIGHT, ok_world), (KEY_UP, ok_world), (KEY_UP, failing_world)]
        example_state))
   \<and> page (snd (load ok_world 555 (Some 2) False
        (snd (exec_loop [(KEY_RIGHT, ok_world), (KEY_UP, ok_world), (KEY_UP, failing_world)]
           example_state)))) = START_PAGE
   \<and> sub_page (snd (load ok_world 555 (Some 2) False
        (snd (exec_loop [(KEY_RIGHT, ok_world), (KEY_UP, ok_world), (KEY_UP, failing_world)]
           example_state)))) = 1"
proof -
  let ?events = "[(KEY_RIGHT, ok_world), (KEY_UP, ok_world), (KEY_UP, failing_world)]"
  let ?info = "[100 \<mapsto> 1, 101 \<mapsto> 3] :: int \<rightharpoonup> int"
  have info: "page_info (snd (exec_loop ?events example_state)) = Some ?info"
    by (simp only: exec_loop_page_info) (simp add: example_state_eq)
  have pos: "positive_counts (snd (exec_loop ?events example_state))"
    unfolding positive_counts_def info by (simp split: if_splits)
  have none: "?info 555 = None" by simp
  from sub_page_in_range_reachable[of ?events "Inr ''var pages = { 100 : 1,101:3 };''" ok_world]
    pos info none
  show ?thesis
    unfolding example_state_def by blast
qed

text \<open>
  An index that gives page 100 the count 0: after the start the application is on page
  100, a key of the index, with sub-page 1, which is above the count.
\<close>

theorem sub_page_in_range_counterexample:
  "page_info (snd (init (Inr ''{100:0}'') ok_world)) = Some [100 \<mapsto> 0]
   \<and> page (snd (init (Inr ''{100:0}'') ok_world)) = 100
   \<and> sub_page (snd (init (Inr ''{100:0}'') ok_world)) = 1
   \<and> \<not> sub_page_in_range (snd (init (Inr ''{100:0}'') ok_world))"
proof -
  have "parse_pages ''{100:0}'' = Inr [100 \<mapsto> 0]"
    by (simp add: parse_pages_def data_string_def py_int_def strip_def is_space_def
        digit_value_def int_max_str_digits_def)
  then have "init (Inr ''{100:0}'') ok_world =
      (Returned, initial\<lparr>page_info := Some [100 \<mapsto> 0], history := [(100, 1)],
         soup := Some sample_document\<rparr>)"
    by (simp add: init_def get_page_info_def load_def push_history_def
        select_page_def initial_def START_PAGE_def APP_WIDTH_def)
  then show ?thesis
    by (simp add: sub_page_in_range_def initial_def START_PAGE_def)
qed

text \<open>
  Claim C8, as the code has it. From an empty digit accumulator, the keys 1 and 0 only
  append to the accumulator: the state is otherwise unchanged and nothing is loaded. The
  keys 1, 0, 0 are exactly one call of \<open>load\<close>, for page 100, on the state with the three
  digits accumulated. When that call returns, the accumulator is emptied; when it raises,
  the exception is passed on and the accumulator keeps the three digits.
\<close>

theorem three_digits_load_once:
  assumes "current_input s = []"
  shows
    "exec_loop [(Printable CHR ''1'', w1), (Printable CHR ''0'', w2)] s =
       (Returned, s\<lparr>current_input := [1, 0]\<rparr>)
     \<and> exec_loop [(Printable CHR ''1'', w1), (Printable CHR ''0'', w2),
                  (Printable CHR ''0'', w3)] s =
         (case load w3 100 None False (s\<lparr>current_input := [1, 0, 0]\<rparr>) of
            (Returned, s') \<Rightarrow> (Returned, s'\<lparr>current_input := []\<rparr>)
          | (Raised e, s') \<Rightarrow> (Raised e, s'))
     \<and> current_input (snd (exec_loop [(Printable CHR ''1'', w1), (Printable CHR ''0'', w2),
                                       (Printable CHR ''0'', w3)] s)) =
         (if fst (exec_loop [(Printable CHR ''1'', w1), (Printable CHR ''0'', w2),
                             (Printable CHR ''0'', w3)] s) = Returned
          then [] else [1, 0, 0])"
proof -
  have k1: "handle_events w (Printable CHR ''1'') t = load_number w 1 t"
    and k0: "handle_events w (Printable CHR ''0'') t = load_number w 0 t" for w t
    by (simp_all add: handle_events_def digit_keys_def)
  have one: "load_number w1 1 s = (Returned, s\<lparr>current_input := [1]\<rparr>)"
    using assms by (simp add: load_number_def)
  have two: "load_number w2 0 (s\<lparr>current_input := [1]\<rparr>) = (Returned, s\<lparr>current_input := [1, 0]\<rparr>)"
    by (simp add: load_number_def)
  obtain out s' where r: "load w3 100 None False (s\<lparr>current_input := [1, 0, 0]\<rparr>) = (out, s')"
    by (cases "load w3 100 None False (s\<lparr>current_input := [1, 0, 0]\<rparr>)")
  from load_fields(2)[of w3 100 None False "s\<lparr>current_input := [1, 0, 0]\<rparr>"] r
  have ci: "current_input s' = [1, 0, 0]" by simp
  have three: "load_number w3 0 (s\<lparr>current_input := [1, 0]\<rparr>) =
      (case out of Returned \<Rightarrow> (Returned, s'\<lparr>current_input := []\<rparr>) | Raised e \<Rightarrow> (Raised e, s'))"
    using r by (cases out) (simp_all add: load_number_def reduce_def)
  have A: "exec_loop [(Printable CHR ''1'', w1), (Printable CHR ''0'', w2)] s =
       (Returned, s\<lparr>current_input := [1, 0]\<rparr>)"
    by (simp add: k1 k0 one two)
  have B: "exec_loop [(Printable CHR ''1'', w1), (Printable CHR ''0'', w2),
                  (Printable CHR ''0'', w3)] s =
      (case out of Returned \<Rightarrow> (Returned, s'\<lparr>current_input := []\<rparr>) | Raised e \<Rightarrow> (Raised e, s'))"
    by (cases out) (simp_all add: k1 k0 one two three)
  from A B r ci show ?thesis
    by (cases out) simp_all
qed

text \<open>
  The theorem on the example state against a service that answers.
\<close>

theorem three_digits_load_once_witness:
  "exec_loop [(Printable CHR ''1'', ok_world), (Printable CHR ''0'', ok_world)] example_state =
       (Returned, example_state\<lparr>current_input := [1, 0]\<rparr>)
   \<and> exec_loop [(Printable CHR ''1'', ok_world), (Printable CHR ''0'', ok_world),
                (Printable CHR ''0'', ok_world)] example_state =
       (Returned, example_state\<lparr>history := [(100, 1), (100, 1)]\<rparr>)
   \<and> current_input (snd (exec_loop [(Printable CHR ''1'', ok_world), (Printable CHR ''0'', ok_world),
                (Printable CHR ''0'', ok_world)] example_state)) = []"
proof -
  have e: "current_input example_state = []"
    by (simp add: example_state_eq initial_def)
  have l: "load ok_world 100 None False (example_state\<lparr>current_input := [1, 0, 0]\<rparr>) =
      (Returned, example_state\<lparr>current_input := [1, 0, 0], history := [(100, 1), (100, 1)]\<rparr>)"
    by (simp add: load_def push_history_def select_page_def example_state_eq initial_def
        START_PAGE_def APP_WIDTH_def)
  from three_digits_load_once[OF e, of ok_world ok_world ok_world]
  show ?thesis
    by (simp add: l) (simp add: example_state_eq initial_def)
qed

text \<open>
  The keys 1, 0, 0 with a service that fails at the third key: the accumulator is not
  empty afterwards.
\<close>

theorem three_digits_counterexample:
  "current_input example_state = []
   \<and> fst (exec_loop [(Printable CHR ''1'', ok_world), (Printable CHR ''0'', ok_world),
                (Printable CHR ''0'', failing_world)] example_state) = Raised URLError
   \<and> current_input (snd (exec_loop [(Printable CHR ''1'', ok_world), (Printable CHR ''0'', ok_world),
                (Printable CHR ''0'', failing_world)] example_state)) = [1, 0, 0]"
  by (simp add: handle_events_def digit_keys_def load_number_def reduce_def load_def
      push_history_def select_page_def fetch_and_display_def failing_world_def
      example_state_eq initial_def START_PAGE_def)

subsection \<open>Going back\<close>

lemma go_back_empty: "history t = [] \<Longrightarrow> go_back_in_history w t = (Returned, t)"
  by (simp add: go_back_in_history_def)

lemma go_back_pops:
  "history t = h @ [(p, sp)] \<Longrightarrow>
     go_back_in_history w t =
       (case load w p (Some sp) True (t\<lparr>history := h\<rparr>) of
          (Raised IndexError, t') \<Rightarrow> (Returned, t')
        | r \<Rightarrow> r)"
  by (simp add: go_back_in_history_def)

lemma snd_swallow:
  "snd (case r of (Raised IndexError, t') \<Rightarrow> (Returned, t') | r' \<Rightarrow> r') = snd r"
  by (cases r) (auto split: outcome.splits py_error.splits)

lemma load_Some:
  "page_info t = Some info \<Longrightarrow>
     load w p sp nh t = fetch_and_display w (select_page info p sp (push_history nh t))"
  by (simp add: load_def)

lemma round_trip_any_page:
  assumes "page_info s = Some info" and "info (page s) = Some n"
    and "1 \<le> sub_page s" and "sub_page s \<le> n"
  shows
    "history (snd (load w1 q sq False s)) = history s @ [(page s, sub_page s)]
     \<and> go_back_in_history w2 (snd (load w1 q sq False s)) =
         (case fetch_and_display w2
                 ((snd (load w1 q sq False s))
                    \<lparr>history := history s, page := page s, sub_page := sub_page s\<rparr>) of
            (Raised IndexError, t') \<Rightarrow> (Returned, t')
          | r \<Rightarrow> r)
     \<and> page (snd (go_back_in_history w2 (snd (load w1 q sq False s)))) = page s
     \<and> sub_page (snd (go_back_in_history w2 (snd (load w1 q sq False s)))) = sub_page s
     \<and> history (snd (go_back_in_history w2 (snd (load w1 q sq False s)))) = history s
     \<and> current_input (snd (go_back_in_history w2 (snd (load w1 q sq False s)))) =
         current_input s"
proof -
  let ?a = "snd (load w1 q sq False s)"
  let ?t = "?a\<lparr>history := history s, page := page s, sub_page := sub_page s\<rparr>"
  have h: "history ?a = history s @ [(page s, sub_page s)]"
    by (simp add: load_fields)
  have i: "page_info (?a\<lparr>history := history s\<rparr>) = Some info"
    using assms(1) by (simp add: load_fields)
  have sel: "select_page info (page s) (Some (sub_page s)) (push_history True x) =
      x\<lparr>page := page s, sub_page := sub_page s\<rparr>" for x :: teletext
    using assms(2-4) by (simp add: select_page_def push_history_def)
  have l: "load w2 (page s) (Some (sub_page s)) True (?a\<lparr>history := history s\<rparr>) =
      fetch_and_display w2 ?t"
    by (simp only: load_Some[OF i] sel)
  have g: "go_back_in_history w2 ?a =
      (case fetch_and_display w2 ?t of (Raised IndexError, t') \<Rightarrow> (Returned, t') | r \<Rightarrow> r)"
    by (simp only: go_back_pops[OF h] l)
  have f: "page (snd (go_back_in_history w2 ?a)) = page s"
    "sub_page (snd (go_back_in_history w2 ?a)) = sub_page s"
    "history (snd (go_back_in_history w2 ?a)) = history s"
    "current_input (snd (go_back_in_history w2 ?a)) = current_input s"
    by (simp_all add: g snd_swallow fetch_and_display_fields load_fields)
  from h g f show ?thesis by blast
qed

lemma round_trip_from_start:
  assumes "page s = 100" and "sub_page s = 1" and "history s = []"
    and "start_page s = START_PAGE"
  shows
    "history (snd (load w1 101 None False s)) = [(100, 1)]
     \<and> (\<forall>info n. page_info s = Some info \<longrightarrow> info 101 = Some n \<longrightarrow>
           page (snd (load w1 101 None False s)) = 101
           \<and> sub_page (snd (load w1 101 None False s)) = 1)
     \<and> page (snd (go_back_in_history w2 (snd (load w1 101 None False s)))) = 100
     \<and> sub_page (snd (go_back_in_history w2 (snd (load w1 101 None False s)))) = 1
     \<and> history (snd (go_back_in_history w2 (snd (load w1 101 None False s)))) = []
     \<and> current_input (snd (go_back_in_history w2 (snd (load w1 101 None False s)))) =
         current_input s
     \<and> load_next w1 s = load w1 101 None False s
     \<and> go_back_in_history w2 s = (Returned, s)"
proof -
  let ?a = "snd (load w1 101 None False s)"
  have h: "history ?a = [(100, 1)]"
    using assms by (simp add: load_fields)
  have there: "page ?a = 101 \<and> sub_page ?a = 1"
    if "page_info s = Some idx" and "idx 101 = Some n" for idx n
    using that
    by (simp add: load_def fetch_and_display_fields select_page_def push_history_fields)
  have gb: "snd (go_back_in_history w2 ?a) = snd (load w2 100 (Some 1) True (?a\<lparr>history := []\<rparr>))"
    by (simp add: snd_go_back h)
  have hb: "history (snd (go_back_in_history w2 ?a)) = []"
    by (simp add: gb load_fields)
  have cb: "current_input (snd (go_back_in_history w2 ?a)) = current_input s"
    by (simp add: gb load_fields)
  have pb: "page (snd (go_back_in_history w2 ?a)) = 100
      \<and> sub_page (snd (go_back_in_history w2 ?a)) = 1"
  proof (cases "page_info s")
    case None
    then have "?a = s\<lparr>history := [(100, 1)]\<rparr>"
      using assms by (simp add: load_def push_history_def)
    moreover have "page_info (?a\<lparr>history := []\<rparr>) = None"
      using None by (simp add: load_fields)
    ultimately show ?thesis
      using assms unfolding gb by (simp add: load_def push_history_def)
  next
    case (Some info)
    then have "page_info (?a\<lparr>history := []\<rparr>) = Some info"
      by (simp add: load_fields)
    moreover have "start_page (?a\<lparr>history := []\<rparr>) = 100"
      using assms by (simp add: load_fields START_PAGE_def)
    ultimately show ?thesis
      unfolding gb
      by (simp add: load_def push_history_def select_page_def fetch_and_display_fields
          split: option.splits)
  qed
  have n: "load_next w1 s = load w1 101 None False s"
    using assms by (simp add: load_next_def)
  have e: "go_back_in_history w2 s = (Returned, s)"
    using assms by (simp add: go_back_in_history_def)
  from h there hb cb pb n e show ?thesis by blast
qed

text \<open>
  Claim C9. From a state on page 100, sub-page 1, with an empty history (and the start
  page of the program), navigating to page 101, which is what the next-page command
  does there, records the visit \<open>(100, 1)\<close> and, when 101 is a key of the index, moves to
  page 101. Going back afterwards restores page 100 and sub-page 1 and leaves the history
  empty: the replay pushes no entry. The pending digits are as before.

  The same holds from every page and sub-page that the index has: after any navigation
  from there, going back fetches and displays exactly that page and sub-page again, and
  restores page, sub-page and history. In general, going back on a history that ends
  with \<open>(p, sp)\<close> is the load of \<open>p\<close> and \<open>sp\<close> without a history entry, on the history
  without its last entry, an \<open>IndexError\<close> of it passed over. Going back with an empty
  history, in any state, returns at once with the state unchanged.
\<close>

theorem go_back_round_trip:
  "(page s = 100 \<longrightarrow> sub_page s = 1 \<longrightarrow> history s = [] \<longrightarrow> start_page s = START_PAGE \<longrightarrow>
       history (snd (load w1 101 None False s)) = [(100, 1)]
     \<and> (\<forall>info n. page_info s = Some info \<longrightarrow> info 101 = Some n \<longrightarrow>
           page (snd (load w1 101 None False s)) = 101
           \<and> sub_page (snd (load w1 101 None False s)) = 1)
     \<and> page (snd (go_back_in_history w2 (snd (load w1 101 None False s)))) = 100
     \<and> sub_page (snd (go_back_in_history w2 (snd (load w1 101 None False s)))) = 1
     \<and> history (snd (go_back_in_history w2 (snd (load w1 101 None False s)))) = []
     \<and> current_input (snd (go_back_in_history w2 (snd (load w1 101 None False s)))) =
         current_input s
     \<and> load_next w1 s = load w1 101 None False s)
   \<and> (\<forall>info n. page_info s = Some info \<longrightarrow> info (page s) = Some n \<longrightarrow>
         1 \<le> sub_page s \<longrightarrow> sub_page s \<le> n \<longrightarrow>
         history (snd (load w1 q sq False s)) = history s @ [(page s, sub_page s)]
       \<and> go_back_in_history w2 (snd (load w1 q sq False s)) =
           (case fetch_and_display w2
                   ((snd (load w1 q sq False s))
                      \<lparr>history := history s, page := page s, sub_page := sub_page s\<rparr>) of
              (Raised IndexError, t') \<Rightarrow> (Returned, t')
            | r \<Rightarrow> r)
       \<and> page (snd (go_back_in_history w2 (snd (load w1 q sq False s)))) = page s
       \<and> sub_page (snd (go_back_in_history w2 (snd (load w1 q sq False s)))) = sub_page s
       \<and> history (snd (go_back_in_history w2 (snd (load w1 q sq False s)))) = history s
       \<and> current_input (snd (go_back_in_history w2 (snd (load w1 q sq False s)))) =
           current_input s)
   \<and> (\<forall>(t :: teletext) h p sp w. history t = h @ [(p, sp)] \<longrightarrow>
         go_back_in_history w t =
           (case load w p (Some sp) True (t\<lparr>history := h\<rparr>) of
              (Raised IndexError, t') \<Rightarrow> (Returned, t')
            | r \<Rightarrow> r))
   \<and> (\<forall>(t :: teletext) w. history t = [] \<longrightarrow> go_back_in_history w t = (Returned, t))"
proof (intro conjI impI allI)
  assume a: "page s = 100" "sub_page s = 1" "history s = []" "start_page s = START_PAGE"
  note A = round_trip_from_start[OF a, of w1 w2]
  from A show "history (snd (load w1 101 None False s)) = [(100, 1)]" by blast
  from A show "page (snd (go_back_in_history w2 (snd (load w1 101 None False s)))) = 100"
    by blast
  from A show "sub_page (snd (go_back_in_history w2 (snd (load w1 101 None False s)))) = 1"
    by blast
  from A show "history (snd (go_back_in_history w2 (snd (load w1 101 None False s)))) = []"
    by blast
  from A show "current_input (snd (go_back_in_history w2 (snd (load w1 101 None False s)))) =
      current_input s"
    by blast
  from A show "load_next w1 s = load w1 101 None False s" by blast
  {
    fix info n
    assume "page_info s = Some info" "info 101 = Some n"
    with A show "page (snd (load w1 101 None False s)) = 101" by blast
    from A \<open>page_info s = Some info\<close> \<open>info 101 = Some n\<close>
    show "sub_page (snd (load w1 101 None False s)) = 1" by blast
  }
next
  fix info n
  assume b: "page_info s = Some info" "info (page s) = Some n" "1 \<le> sub_page s"
    "sub_page s \<le> n"
  note B = round_trip_any_page[OF b, of w1 q sq w2]
  from B show "history (snd (load w1 q sq False s)) = history s @ [(page s, sub_page s)]"
    by blast
  from B show "go_back_in_history w2 (snd (load w1 q sq False s)) =
           (case fetch_and_display w2
                   ((snd (load w1 q sq False s))
                      \<lparr>history := history s, page := page s, sub_page := sub_page s\<rparr>) of
              (Raised IndexError, t') \<Rightarrow> (Returned, t')
            | r \<Rightarrow> r)"
    by blast
  from B show "page (snd (go_back_in_history w2 (snd (load w1 q sq False s)))) = page s"
    by blast
  from B show "sub_page (snd (go_back_in_history w2 (snd (load w1 q sq False s)))) = sub_page s"
    by blast
  from B show "history (snd (go_back_in_history w2 (snd (load w1 q sq False s)))) = history s"
    by blast
  from B show "current_input (snd (go_back_in_history w2 (snd (load w1 q sq False s)))) =
           current_input s"
    by blast
next
  fix t :: teletext and h p sp w
  assume "history t = h @ [(p, sp)]"
  then show "go_back_in_history w t =
           (case load w p (Some sp) True (t\<lparr>history := h\<rparr>) of
              (Raised IndexError, t') \<Rightarrow> (Returned, t')
            | r \<Rightarrow> r)"
    by (rule go_back_pops)
next
  fix t :: teletext and w
  assume "history t = []"
  then show "go_back_in_history w t = (Returned, t)" by (rule go_back_empty)
qed

text \<open>
  The theorem on the example state with its history emptied; from page 101, sub-page 2,
  which is not the start page; with a service that fails at the replay; and with an
  empty history on page 101, sub-page 2.
\<close>

theorem go_back_round_trip_witness:
  "history (snd (load ok_world 101 None False (example_state\<lparr>history := []\<rparr>))) = [(100, 1)]
   \<and> page (snd (load ok_world 101 None False (example_state\<lparr>history := []\<rparr>))) = 101
   \<and> sub_page (snd (load ok_world 101 None False (example_state\<lparr>history := []\<rparr>))) = 1
   \<and> page (snd (go_back_in_history ok_world
         (snd (load ok_world 101 None False (example_state\<lparr>history := []\<rparr>))))) = 100
   \<and> sub_page (snd (go_back_in_history ok_world
         (snd (load ok_world 101 None False (example_state\<lparr>history := []\<rparr>))))) = 1
   \<and> history (snd (go_back_in_history ok_world
         (snd (load ok_world 101 None False (example_state\<lparr>history := []\<rparr>))))) = []
   \<and> page (snd (load ok_world 100 None False
         (example_state\<lparr>page := 101, sub_page := 2\<rparr>))) = 100
   \<and> page (snd (go_back_in_history ok_world (snd (load ok_world 100 None False
         (example_state\<lparr>page := 101, sub_page := 2\<rparr>))))) = 101
   \<and> sub_page (snd (go_back_in_history ok_world (snd (load ok_world 100 None False
         (example_state\<lparr>page := 101, sub_page := 2\<rparr>))))) = 2
   \<and> history (snd (go_back_in_history ok_world (snd (load ok_world 100 None False
         (example_state\<lparr>page := 101, sub_page := 2\<rparr>))))) = [(100, 1)]
   \<and> go_back_in_history failing_world example_state =
        (Raised URLError, example_state\<lparr>history := []\<rparr>)
   \<and> go_back_in_history ok_world (example_state\<lparr>page := 101, sub_page := 2, history := []\<rparr>) =
        (Returned, example_state\<lparr>page := 101, sub_page := 2, history := []\<rparr>)"
proof -
  let ?s = "example_state\<lparr>history := []\<rparr>"
  let ?u = "example_state\<lparr>page := 101, sub_page := 2\<rparr>"
  let ?v = "example_state\<lparr>page := 101, sub_page := 2, history := []\<rparr>"
  have a: "page ?s = 100" "sub_page ?s = 1" "history ?s = []" "start_page ?s = START_PAGE"
    by (simp_all add: example_state_eq initial_def START_PAGE_def)
  have i: "page_info ?s = Some [100 \<mapsto> 1, 101 \<mapsto> 3]"
    by (simp add: example_state_eq)
  have k: "[100 \<mapsto> 1, 101 \<mapsto> 3] (101::int) = Some (3::int)" by simp
  note A = go_back_round_trip[of ?s ok_world ok_world, THEN conjunct1, rule_format, OF a]
  from A i k
  have 1: "history (snd (load ok_world 101 None False ?s)) = [(100, 1)]
     \<and> page (snd (load ok_world 101 None False ?s)) = 101
     \<and> sub_page (snd (load ok_world 101 None False ?s)) = 1
     \<and> page (snd (go_back_in_history ok_world (snd (load ok_world 101 None False ?s)))) = 100
     \<and> sub_page (snd (go_back_in_history ok_world (snd (load ok_world 101 None False ?s)))) = 1
     \<and> history (snd (go_back_in_history ok_world (snd (load ok_world 101 None False ?s)))) = []"
    by blast
  have u: "page_info ?u = Some [100 \<mapsto> 1, 101 \<mapsto> 3]"
    "[100 \<mapsto> 1, 101 \<mapsto> 3] (page ?u) = Some (3::int)" "1 \<le> sub_page ?u" "sub_page ?u \<le> 3"
    "page ?u = 101" "sub_page ?u = 2" "history ?u = [(100, 1)]"
    by (simp_all add: example_state_eq initial_def)
  note B = go_back_round_trip[of ?u ok_world ok_world 100 None, THEN conjunct2,
      THEN conjunct1, rule_format, OF u(1-4)]
  have 2: "page (snd (go_back_in_history ok_world (snd (load ok_world 100 None False ?u)))) = 101
     \<and> sub_page (snd (go_back_in_history ok_world
          (snd (load ok_world 100 None False ?u)))) = 2
     \<and> history (snd (go_back_in_history ok_world
          (snd (load ok_world 100 None False ?u)))) = [(100, 1)]"
    using B[THEN conjunct2, THEN conjunct2] unfolding u(5) u(6) u(7) by blast
  have 3: "page (snd (load ok_world 100 None False ?u)) = 100"
    by (simp add: load_def push_history_def select_page_def fetch_and_display_fields
        example_state_eq)
  have h: "history example_state = [] @ [(100, 1)]"
    by (simp add: example_state_eq initial_def)
  have l: "load failing_world 100 (Some 1) True (example_state\<lparr>history := []\<rparr>) =
      (Raised URLError, example_state\<lparr>history := []\<rparr>)"
    by (simp add: load_def push_history_def select_page_def fetch_and_display_def
        failing_world_def example_state_eq initial_def START_PAGE_def)
  from go_back_round_trip[of ?s ok_world ok_world, THEN conjunct2, THEN conjunct2,
      THEN conjunct1, rule_format, OF h, of failing_world]
  have 4: "go_back_in_history failing_world example_state =
        (Raised URLError, example_state\<lparr>history := []\<rparr>)"
    by (simp add: l)
  have e: "history ?v = []" by simp
  from go_back_round_trip[of ?s ok_world ok_world, THEN conjunct2, THEN conjunct2,
      THEN conjunct2, rule_format, OF e, of ok_world]
  have 5: "go_back_in_history ok_world ?v = (Returned, ?v)" .
  from 1 2 3 4 5 show ?thesis by blast
qed



end
